theory Spec2Isabelle
  imports Complex_Main "HOL-Library.Word" "HOL-Library.Code_Target_Numeral"
begin

section \<open>Strings and values of the host language\<close>

text \<open>
  The utility module \<^verbatim>\<open>src/js/src/utils/index.ts\<close> holds four helpers, each a
  single call of a primitive of the JavaScript standard library. The helpers are
  embedded below as the source writes them; the primitives they call are embedded
  after ECMA-262, as far as the helpers use them.

  A JavaScript string is a sequence of 16-bit code units.
\<close>

type_synonym code_unit = "16 word"
type_synonym jsstring = "code_unit list"

definition cu :: "char \<Rightarrow> code_unit" where
  "cu c = of_nat (of_char c)"

definition lit :: "string \<Rightarrow> jsstring" where
  "lit s = map cu s"


text \<open>
  A Number is an IEEE double: not-a-number, the two infinities, negative zero, or a
  finite value, which is a rational (\<open>Finite 0\<close> is positive zero).

  A value is a primitive, an array, or an object given by its enumerable own
  string-keyed data properties in enumeration order. An object graph is given by its
  unfolding from the root: an object reached twice is written twice, and a reference
  from an object back to itself or to an object that contains it is \<open>JCycle k\<close>, the
  \<open>k\<close>-th enclosing object counted from the innermost. \<open>JToJSON f\<close> is an object
  whose only own property is a method \<open>toJSON\<close>: user code, which returns a value
  or throws, and whose outcome may depend on what it reads from the host, here the
  system clock. Functions and symbols carry no behaviour. Accessor properties and
  proxies, which also run user code when a value is serialised, are not values of
  this type.
\<close>

datatype number = NaN | PosInfinity | NegInfinity | NegZero | Finite rat

text \<open>The errors thrown: three kinds of built-in error, and whatever user code throws.\<close>

datatype error = TypeError | RangeError | SyntaxError | UserError

datatype jsval =
    JUndefined
  | JNull
  | JBool bool
  | JNumber number
  | JString jsstring
  | JBigInt int
  | JSymbol
  | JFunction
  | JArray "jsval list"
  | JObject "(jsstring \<times> jsval) list"
  | JCycle nat
  | JToJSON "int \<Rightarrow> error + jsval"

text \<open>The abstract operation \<open>ToBoolean\<close>, which decides \<^verbatim>\<open>if (data)\<close>.\<close>

fun ToBoolean :: "jsval \<Rightarrow> bool" where
  "ToBoolean JUndefined = False"
| "ToBoolean JNull = False"
| "ToBoolean (JBool b) = b"
| "ToBoolean (JNumber n) =
     (case n of NaN \<Rightarrow> False | NegZero \<Rightarrow> False | Finite q \<Rightarrow> q \<noteq> 0 | _ \<Rightarrow> True)"
| "ToBoolean (JString s) = (s \<noteq> [])"
| "ToBoolean (JBigInt n) = (n \<noteq> 0)"
| "ToBoolean JSymbol = True"
| "ToBoolean JFunction = True"
| "ToBoolean (JArray vs) = True"
| "ToBoolean (JObject ps) = True"
| "ToBoolean (JCycle k) = True"
| "ToBoolean (JToJSON f) = True"

section \<open>The host state\<close>

text \<open>
  What the helpers read and write outside their arguments belongs to the host: the
  system clock (milliseconds since the epoch), the random source (the outcome of its
  n-th call and the number of calls made), the console (the calls of \<open>console.log\<close>
  so far, oldest first, each with its arguments), the promises and timers created
  (each timer with the delay it was registered with and the promise it resolves), and
  the room left on the call stack (the number of nested calls of the serialiser that
  still fit on it).
\<close>

record world =
  clock :: int
  random_source :: "nat \<Rightarrow> nat list"
  random_calls :: nat
  console :: "jsval list list"
  promises :: nat
  timers :: "(number \<times> nat) list"
  stack_room :: nat

definition console_log :: "jsval list \<Rightarrow> world \<Rightarrow> world" where
  "console_log args w = w\<lparr>console := console w @ [args]\<rparr>"

definition Math_random :: "world \<Rightarrow> nat list \<times> world" where
  "Math_random w = (random_source w (random_calls w), w\<lparr>random_calls := Suc (random_calls w)\<rparr>)"

definition setTimeout :: "nat \<Rightarrow> number \<Rightarrow> world \<Rightarrow> world" where
  "setTimeout p delay w = w\<lparr>timers := timers w @ [(delay, p)]\<rparr>"

section \<open>Dates\<close>

text \<open>
  Time values and the calendar functions of ECMA-262 (Day Number and Time within Day,
  Year Number, Month Number, Date Number, Hours, Minutes, Seconds, Milliseconds). A
  time value is an integral number of milliseconds of magnitude at most 8.64e15, or
  not-a-number, here \<open>None\<close>.
\<close>

definition msPerDay :: int where
  "msPerDay = 86400000"

definition TimeClip :: "int \<Rightarrow> int option" where
  "TimeClip t = (if \<bar>t\<bar> > 8640000000000000 then None else Some t)"

definition Day :: "int \<Rightarrow> int" where
  "Day t = t div msPerDay"

definition TimeWithinDay :: "int \<Rightarrow> int" where
  "TimeWithinDay t = t mod msPerDay"

definition DaysInYear :: "int \<Rightarrow> int" where
  "DaysInYear y =
     (if y mod 4 \<noteq> 0 then 365 else if y mod 100 \<noteq> 0 then 366
      else if y mod 400 \<noteq> 0 then 365 else 366)"

definition DayFromYear :: "int \<Rightarrow> int" where
  "DayFromYear y = 365 * (y - 1970) + (y - 1969) div 4 - (y - 1901) div 100 + (y - 1601) div 400"

text \<open>
  \<open>YearFromTime(t)\<close> is the largest year whose first day is not after the day of
  \<open>t\<close>. It is computed from the mean year length (146097 days in 400 years), which
  misses by at most one year; \<open>YearFromTime_largest\<close> below shows that the result is
  the year ECMA-262 defines.
\<close>

definition YearFromTime :: "int \<Rightarrow> int" where
  "YearFromTime t =
     (let d = Day t; y = 1970 + (400 * d) div 146097
      in if DayFromYear (y + 1) \<le> d then y + 1 else if DayFromYear y \<le> d then y else y - 1)"

definition InLeapYear :: "int \<Rightarrow> int" where
  "InLeapYear t = (if DaysInYear (YearFromTime t) = 366 then 1 else 0)"

definition DayWithinYear :: "int \<Rightarrow> int" where
  "DayWithinYear t = Day t - DayFromYear (YearFromTime t)"

text \<open>The day of the year on which month \<open>m\<close> (0 to 11) starts.\<close>

definition month_start :: "int \<Rightarrow> int \<Rightarrow> int" where
  "month_start leap m =
     (if m = 0 then 0 else if m = 1 then 31 else if m = 2 then 59 + leap
      else if m = 3 then 90 + leap else if m = 4 then 120 + leap
      else if m = 5 then 151 + leap else if m = 6 then 181 + leap
      else if m = 7 then 212 + leap else if m = 8 then 243 + leap
      else if m = 9 then 273 + leap else if m = 10 then 304 + leap
      else 334 + leap)"

definition MonthFromTime :: "int \<Rightarrow> int" where
  "MonthFromTime t =
     (let d = DayWithinYear t; leap = InLeapYear t
      in if d < 31 then 0 else if d < 59 + leap then 1 else if d < 90 + leap then 2
         else if d < 120 + leap then 3 else if d < 151 + leap then 4
         else if d < 181 + leap then 5 else if d < 212 + leap then 6
         else if d < 243 + leap then 7 else if d < 273 + leap then 8
         else if d < 304 + leap then 9 else if d < 334 + leap then 10 else 11)"

definition DateFromTime :: "int \<Rightarrow> int" where
  "DateFromTime t = DayWithinYear t - month_start (InLeapYear t) (MonthFromTime t) + 1"

definition HourFromTime :: "int \<Rightarrow> int" where
  "HourFromTime t = (t div 3600000) mod 24"

definition MinFromTime :: "int \<Rightarrow> int" where
  "MinFromTime t = (t div 60000) mod 60"

definition SecFromTime :: "int \<Rightarrow> int" where
  "SecFromTime t = (t div 1000) mod 60"

definition msFromTime :: "int \<Rightarrow> int" where
  "msFromTime t = t mod 1000"

text \<open>Decimal digits, most significant first, padded with zeros to a fixed width.\<close>

definition digit :: "nat \<Rightarrow> code_unit" where
  "digit d = of_nat (48 + d)"

fun pad :: "nat \<Rightarrow> nat \<Rightarrow> jsstring" where
  "pad 0 n = []"
| "pad (Suc k) n = pad k (n div 10) @ [digit (n mod 10)]"

text \<open>
  \<open>Date.prototype.toISOString\<close>: a RangeError for an invalid date, otherwise
  \<open>YYYY-MM-DDTHH:mm:ss.sssZ\<close>, the year with four digits from 0 to 9999 and as an
  expanded year (a sign and six digits) outside.
\<close>

definition year_string :: "int \<Rightarrow> jsstring" where
  "year_string y =
     (if 0 \<le> y \<and> y \<le> 9999 then pad 4 (nat y)
      else (if y < 0 then lit ''-'' else lit ''+'') @ pad 6 (nat \<bar>y\<bar>))"

definition toISOString :: "int option \<Rightarrow> error + jsstring" where
  "toISOString tv =
     (case tv of
        None \<Rightarrow> Inl RangeError
      | Some t \<Rightarrow> Inr (
          year_string (YearFromTime t) @ lit ''-'' @ pad 2 (nat (MonthFromTime t + 1)) @ lit ''-''
          @ pad 2 (nat (DateFromTime t)) @ lit ''T'' @ pad 2 (nat (HourFromTime t)) @ lit '':''
          @ pad 2 (nat (MinFromTime t)) @ lit '':'' @ pad 2 (nat (SecFromTime t)) @ lit ''.''
          @ pad 3 (nat (msFromTime t)) @ lit ''Z''))"

text \<open>\<^verbatim>\<open>new Date()\<close>: the time value of the current time.\<close>

definition Date_new :: "world \<Rightarrow> int option" where
  "Date_new w = TimeClip (clock w)"

text \<open>
  Reading a timestamp back, to say what a valid one is: the calendar date and time of
  ISO 8601 in the extended format \<open>YYYY-MM-DDTHH:mm:ss.sssZ\<close> (or with an expanded
  year \<open>\<plusminus>YYYYYY\<close>, other than \<open>-000000\<close>), with the month from 01 to 12, the day from 01
  to the length of that month, the hour below 24, minute and second below 60. The
  result is the time value the timestamp denotes.
\<close>

definition digit_val :: "code_unit \<Rightarrow> nat option" where
  "digit_val c = (if 48 \<le> c \<and> c \<le> 57 then Some (unat c - 48) else None)"

fun read_digits :: "nat \<Rightarrow> jsstring \<Rightarrow> nat option" where
  "read_digits acc [] = Some acc"
| "read_digits acc (c # cs) =
     (case digit_val c of None \<Rightarrow> None | Some d \<Rightarrow> read_digits (10 * acc + d) cs)"

definition days_in_month :: "int \<Rightarrow> int \<Rightarrow> int" where
  "days_in_month y m =
     (if m = 1 then (if DaysInYear y = 366 then 29 else 28)
      else if m = 3 \<or> m = 5 \<or> m = 8 \<or> m = 10 then 30 else 31)"

definition read_year :: "jsstring \<Rightarrow> (int \<times> jsstring) option" where
  "read_year s =
     (if s \<noteq> [] \<and> hd s = cu CHR ''+'' then
        (case read_digits 0 (take 6 (tl s)) of
           None \<Rightarrow> None
         | Some y \<Rightarrow> if length s < 7 then None else Some (int y, drop 7 s))
      else if s \<noteq> [] \<and> hd s = cu CHR ''-'' then
        (case read_digits 0 (take 6 (tl s)) of
           None \<Rightarrow> None
         | Some y \<Rightarrow> if length s < 7 \<or> y = 0 then None else Some (- int y, drop 7 s))
      else
        (case read_digits 0 (take 4 s) of
           None \<Rightarrow> None
         | Some y \<Rightarrow> if length s < 4 then None else Some (int y, drop 4 s)))"

definition read_field :: "string \<Rightarrow> nat \<Rightarrow> jsstring \<Rightarrow> (int \<times> jsstring) option" where
  "read_field sep k s =
     (if length s < length sep + k \<or> take (length sep) s \<noteq> lit sep then None
      else case read_digits 0 (take k (drop (length sep) s)) of
             None \<Rightarrow> None
           | Some n \<Rightarrow> Some (int n, drop (length sep + k) s))"

definition parse_iso8601 :: "jsstring \<Rightarrow> int option" where
  "parse_iso8601 s =
     (case read_year s of None \<Rightarrow> None | Some (y, s1) \<Rightarrow>
      case read_field ''-'' 2 s1 of None \<Rightarrow> None | Some (mo, s2) \<Rightarrow>
      case read_field ''-'' 2 s2 of None \<Rightarrow> None | Some (d, s3) \<Rightarrow>
      case read_field ''T'' 2 s3 of None \<Rightarrow> None | Some (h, s4) \<Rightarrow>
      case read_field '':'' 2 s4 of None \<Rightarrow> None | Some (mi, s5) \<Rightarrow>
      case read_field '':'' 2 s5 of None \<Rightarrow> None | Some (sec, s6) \<Rightarrow>
      case read_field ''.'' 3 s6 of None \<Rightarrow> None | Some (ms, s7) \<Rightarrow>
        if s7 = lit ''Z'' \<and> 1 \<le> mo \<and> mo \<le> 12 \<and> 1 \<le> d \<and> d \<le> days_in_month y (mo - 1)
           \<and> h < 24 \<and> mi < 60 \<and> sec < 60
        then Some (msPerDay * (DayFromYear y
                     + month_start (if DaysInYear y = 366 then 1 else 0) (mo - 1) + d - 1)
                   + h * 3600000 + mi * 60000 + sec * 1000 + ms)
        else None)"

section \<open>JSON.stringify\<close>

text \<open>
  Number::toString in radix 10. For a safe integer (an integral value of magnitude
  below \<open>2^53\<close>) the result is its decimal numeral. For any other finite value the
  digits are the shortest that identify the double, a matter of floating-point
  arithmetic: the host supplies them, as the integers \<open>s\<close> and \<open>n\<close> of ECMA-262 (the
  decimal digits of \<open>s\<close>, with the decimal point after the first \<open>n\<close> of them), and
  the rounding of a mathematical value to a Number on the way back. The layout of
  the digits (fixed notation for \<open>n\<close> from -5 to 21, exponential notation
  otherwise) is the one of ECMA-262.
\<close>

record host =
  shortest_digits :: "rat \<Rightarrow> nat \<times> int"
  to_double :: "rat \<Rightarrow> number"

fun digits_of_nat :: "nat \<Rightarrow> jsstring" where
  "digits_of_nat n = (if n < 10 then [digit n] else digits_of_nat (n div 10) @ [digit (n mod 10)])"

declare digits_of_nat.simps [simp del]

definition is_safe_integer :: "rat \<Rightarrow> bool" where
  "is_safe_integer q = (q = of_int \<lfloor>q\<rfloor> \<and> \<bar>\<lfloor>q\<rfloor>\<bar> \<le> 9007199254740991)"

definition format_digits :: "nat \<times> int \<Rightarrow> jsstring" where
  "format_digits sn =
     (let ds = digits_of_nat (fst sn); n = snd sn; k = int (length ds) in
      if - 5 \<le> n \<and> n \<le> 21 then
        (if k \<le> n then ds @ replicate (nat (n - k)) (cu CHR ''0'')
         else if 0 < n then take (nat n) ds @ lit ''.'' @ drop (nat n) ds
         else lit ''0.'' @ replicate (nat (- n)) (cu CHR ''0'') @ ds)
      else
        (let e = n - 1;
             es = (if e < 0 then lit ''-'' else lit ''+'') @ digits_of_nat (nat \<bar>e\<bar>)
         in if k = 1 then ds @ lit ''e'' @ es
            else take 1 ds @ lit ''.'' @ drop 1 ds @ lit ''e'' @ es))"

definition positive_to_string :: "host \<Rightarrow> rat \<Rightarrow> jsstring" where
  "positive_to_string h q =
     (if is_safe_integer q then digits_of_nat (nat \<lfloor>q\<rfloor>) else format_digits (shortest_digits h q))"

fun NumberToString :: "host \<Rightarrow> number \<Rightarrow> jsstring" where
  "NumberToString h NaN = lit ''NaN''"
| "NumberToString h NegZero = lit ''0''"
| "NumberToString h PosInfinity = lit ''Infinity''"
| "NumberToString h NegInfinity = lit ''-Infinity''"
| "NumberToString h (Finite q) =
     (if q = 0 then lit ''0''
      else if q < 0 then lit ''-'' @ positive_to_string h (- q)
      else positive_to_string h q)"

text \<open>
  QuoteJSONString: the string between double quotes, with the two-character escapes
  for backspace, tab, line feed, form feed, carriage return, the double quote and the
  backslash, a \<open>\u\<close> escape with four lowercase hexadecimal digits for the other code
  units below the space and for a surrogate that is not part of a pair, and every
  other code unit as it is.
\<close>

definition hex_digit :: "nat \<Rightarrow> code_unit" where
  "hex_digit d = (if d < 10 then of_nat (48 + d) else of_nat (87 + d))"

definition UnicodeEscape :: "code_unit \<Rightarrow> jsstring" where
  "UnicodeEscape c =
     (let n = unat c in
      [0x5C, cu CHR ''u'', hex_digit (n div 4096), hex_digit (n div 256 mod 16),
       hex_digit (n div 16 mod 16), hex_digit (n mod 16)])"

definition is_leading_surrogate :: "code_unit \<Rightarrow> bool" where
  "is_leading_surrogate c = (0xD800 \<le> c \<and> c \<le> 0xDBFF)"

definition is_trailing_surrogate :: "code_unit \<Rightarrow> bool" where
  "is_trailing_surrogate c = (0xDC00 \<le> c \<and> c \<le> 0xDFFF)"

definition quote_unit :: "code_unit \<Rightarrow> jsstring" where
  "quote_unit c =
     (if c = 0x08 then [0x5C, cu CHR ''b'']
      else if c = 0x09 then [0x5C, cu CHR ''t'']
      else if c = 0x0A then [0x5C, cu CHR ''n'']
      else if c = 0x0C then [0x5C, cu CHR ''f'']
      else if c = 0x0D then [0x5C, cu CHR ''r'']
      else if c = 0x22 then [0x5C, 0x22]
      else if c = 0x5C then [0x5C, 0x5C]
      else if c < 0x20 \<or> is_leading_surrogate c \<or> is_trailing_surrogate c then UnicodeEscape c
      else [c])"

fun quote_units :: "jsstring \<Rightarrow> jsstring" where
  "quote_units [] = []"
| "quote_units [c] = quote_unit c"
| "quote_units (c # d # cs) =
     (if is_leading_surrogate c \<and> is_trailing_surrogate d then c # d # quote_units cs
      else quote_unit c @ quote_units (d # cs))"

definition QuoteJSONString :: "jsstring \<Rightarrow> jsstring" where
  "QuoteJSONString s = [0x22] @ quote_units s @ [0x22]"

text \<open>
  SerializeJSONProperty, SerializeJSONArray and SerializeJSONObject, for the state
  that \<open>JSON.stringify\<close> sets up when its replacer argument is null: no replacer
  function and no property list. \<open>now\<close> is the system clock, which user code may
  read; \<open>depth\<close> is the number of nested calls the stack still holds; \<open>gap\<close> is the
  indentation unit and \<open>indent\<close> the current indentation.

  The result is a string, or undefined (\<open>None\<close>) for a value that has no JSON text,
  or an error: the TypeError that a BigInt raises, the TypeError for an object that
  is already on the stack of objects being serialised (a cyclic structure), the
  RangeError of the host when the nesting exhausts its call stack, and whatever a
  \<open>toJSON\<close> method throws. The built-in prototypes are those of the standard: none
  has been given a \<open>toJSON\<close> method. Exhaustion of the host's memory and its bound
  on the length of a string are not modelled. A \<open>toJSON\<close> method is called, and its result serialised
  in place of the object; if that result is again an object with nothing but a
  \<open>toJSON\<close> method, its text is \<open>{}\<close>. An element of an array without JSON text is
  written \<open>null\<close>; a property without JSON text is left out.
\<close>

fun join :: "jsstring \<Rightarrow> jsstring list \<Rightarrow> jsstring" where
  "join sep [] = []"
| "join sep [s] = s"
| "join sep (s # t # ss) = s @ sep @ join sep (t # ss)"

definition is_finite :: "number \<Rightarrow> bool" where
  "is_finite n = (case n of Finite q \<Rightarrow> True | NegZero \<Rightarrow> True | _ \<Rightarrow> False)"

fun has_toJSON :: "jsval \<Rightarrow> bool" where
  "has_toJSON (JToJSON f) = True"
| "has_toJSON v = False"

function SerializeJSONProperty ::
    "host \<Rightarrow> int \<Rightarrow> nat \<Rightarrow> jsstring \<Rightarrow> jsstring \<Rightarrow> jsval \<Rightarrow> error + jsstring option"
  and array_partial ::
    "host \<Rightarrow> int \<Rightarrow> nat \<Rightarrow> jsstring \<Rightarrow> jsstring \<Rightarrow> jsval list \<Rightarrow> error + jsstring list"
  and object_partial ::
    "host \<Rightarrow> int \<Rightarrow> nat \<Rightarrow> jsstring \<Rightarrow> jsstring \<Rightarrow> (jsstring \<times> jsval) list
       \<Rightarrow> error + jsstring list"
where
  "SerializeJSONProperty h now depth gap indent (JToJSON f) =
     (if depth = 0 then Inl RangeError
      else case f now of
             Inl e \<Rightarrow> Inl e
           | Inr value \<Rightarrow>
               if has_toJSON value then Inr (Some (lit ''{}''))
               else SerializeJSONProperty h now (depth - 1) gap indent value)"
| "SerializeJSONProperty h now depth gap indent JNull = Inr (Some (lit ''null''))"
| "SerializeJSONProperty h now depth gap indent (JBool b) =
     Inr (Some (if b then lit ''true'' else lit ''false''))"
| "SerializeJSONProperty h now depth gap indent (JString s) = Inr (Some (QuoteJSONString s))"
| "SerializeJSONProperty h now depth gap indent (JNumber n) =
     Inr (Some (if is_finite n then NumberToString h n else lit ''null''))"
| "SerializeJSONProperty h now depth gap indent (JBigInt i) = Inl TypeError"
| "SerializeJSONProperty h now depth gap indent (JCycle k) = Inl TypeError"
| "SerializeJSONProperty h now depth gap indent (JArray vs) =
     (if depth = 0 then Inl RangeError
      else
        (let stepback = indent; indent = indent @ gap in
         case array_partial h now (depth - 1) gap indent vs of
           Inl e \<Rightarrow> Inl e
         | Inr partial \<Rightarrow> Inr (Some (
             if partial = [] then lit ''[]''
             else if gap = [] then lit ''['' @ join (lit '','') partial @ lit '']''
             else lit ''['' @ [0x0A] @ indent @ join (lit '','' @ [0x0A] @ indent) partial
                  @ [0x0A] @ stepback @ lit '']''))))"
| "SerializeJSONProperty h now depth gap indent (JObject ps) =
     (if depth = 0 then Inl RangeError
      else
        (let stepback = indent; indent = indent @ gap in
         case object_partial h now (depth - 1) gap indent ps of
           Inl e \<Rightarrow> Inl e
         | Inr partial \<Rightarrow> Inr (Some (
             if partial = [] then lit ''{}''
             else if gap = [] then lit ''{'' @ join (lit '','') partial @ lit ''}''
             else lit ''{'' @ [0x0A] @ indent @ join (lit '','' @ [0x0A] @ indent) partial
                  @ [0x0A] @ stepback @ lit ''}''))))"
| "SerializeJSONProperty h now depth gap indent JUndefined = Inr None"
| "SerializeJSONProperty h now depth gap indent JSymbol = Inr None"
| "SerializeJSONProperty h now depth gap indent JFunction = Inr None"
| "array_partial h now depth gap indent [] = Inr []"
| "array_partial h now depth gap indent (v # vs) =
     (case SerializeJSONProperty h now depth gap indent v of
        Inl e \<Rightarrow> Inl e
      | Inr strP \<Rightarrow>
          (case array_partial h now depth gap indent vs of
             Inl e \<Rightarrow> Inl e
           | Inr partial \<Rightarrow>
               Inr ((case strP of None \<Rightarrow> lit ''null'' | Some s \<Rightarrow> s) # partial)))"
| "object_partial h now depth gap indent [] = Inr []"
| "object_partial h now depth gap indent (p # ps) =
     (case SerializeJSONProperty h now depth gap indent (snd p) of
        Inl e \<Rightarrow> Inl e
      | Inr strP \<Rightarrow>
          (case object_partial h now depth gap indent ps of
             Inl e \<Rightarrow> Inl e
           | Inr partial \<Rightarrow>
               (case strP of
                  None \<Rightarrow> Inr partial
                | Some s \<Rightarrow>
                    Inr ((QuoteJSONString (fst p) @ lit '':''
                          @ (if gap \<noteq> [] then lit '' '' else []) @ s) # partial))))"
  by pat_completeness auto

termination
  by (relation "inv_image (less_than <*lex*> less_than)
        (\<lambda>x. case x of
           Inl (h, now, depth, gap, indent, v) \<Rightarrow> (depth, 0)
         | Inr (Inl (h, now, depth, gap, indent, vs)) \<Rightarrow> (depth, Suc (length vs))
         | Inr (Inr (h, now, depth, gap, indent, ps)) \<Rightarrow> (depth, Suc (length ps)))") auto

text \<open>
  \<open>JSON.stringify(value, null, space)\<close>, called with the clock at \<open>now\<close> and with
  \<open>room\<close> on the stack. A Number \<open>space\<close> gives a gap of that many spaces, at most
  10 (none below 1); a String \<open>space\<close> gives its first 10 code units; anything else
  gives the empty gap.
\<close>

definition ToIntegerOrInfinity_min10 :: "number \<Rightarrow> nat" where
  "ToIntegerOrInfinity_min10 n =
     (case n of
        NaN \<Rightarrow> 0 | NegZero \<Rightarrow> 0 | PosInfinity \<Rightarrow> 10 | NegInfinity \<Rightarrow> 0
      | Finite q \<Rightarrow> nat (min 10 (if 0 \<le> q then \<lfloor>q\<rfloor> else \<lceil>q\<rceil>)))"

definition JSON_stringify ::
    "host \<Rightarrow> int \<Rightarrow> nat \<Rightarrow> jsval \<Rightarrow> jsval \<Rightarrow> error + jsstring option" where
  "JSON_stringify h now room v space =
     (let gap = (case space of
                   JNumber n \<Rightarrow> replicate (ToIntegerOrInfinity_min10 n) (cu CHR '' '')
                 | JString s \<Rightarrow> take 10 s
                 | _ \<Rightarrow> [])
      in SerializeJSONProperty h now room gap [] v)"


fun runs_user_code :: "jsval \<Rightarrow> bool" where
  "runs_user_code (JToJSON f) = True"
| "runs_user_code (JArray vs) = list_ex runs_user_code vs"
| "runs_user_code (JObject ps) = list_ex (\<lambda>p. runs_user_code (snd p)) ps"
| "runs_user_code v = False"


fun nesting :: "jsval \<Rightarrow> nat" where
  "nesting (JArray vs) = Suc (fold max (map nesting vs) 0)"
| "nesting (JObject ps) = Suc (fold max (map (\<lambda>p. nesting (snd p)) ps) 0)"
| "nesting v = 0"


subsection \<open>Indented text\<close>

text \<open>
  What it is for a text to be indented by two spaces for each level of nesting,
  stated on the text alone. The text is read from left to right, keeping track of
  whether the position is outside or inside a string literal (or just after a
  backslash in one) and of the number of brackets and braces open outside string
  literals. An opening bracket or brace is followed by a line break or directly by a
  closing one; a comma outside a string literal is followed by a line break; and a
  line break is followed by two spaces for each bracket or brace open at that point,
  not counting one that the line starts by closing, and then by a character that is
  not a space. At the end no string literal, bracket or brace is open.
\<close>

datatype mode = Outside | Inside | Escaped

definition is_open :: "code_unit \<Rightarrow> bool" where
  "is_open c = (c = 0x5B \<or> c = 0x7B)"

definition is_close :: "code_unit \<Rightarrow> bool" where
  "is_close c = (c = 0x5D \<or> c = 0x7D)"

fun indented_text :: "mode \<Rightarrow> nat \<Rightarrow> jsstring \<Rightarrow> bool" where
  "indented_text m level [] = (m = Outside \<and> level = 0)"
| "indented_text Escaped level (c # cs) = indented_text Inside level cs"
| "indented_text Inside level (c # cs) =
     (if c = 0x5C then indented_text Escaped level cs
      else if c = 0x22 then indented_text Outside level cs
      else indented_text Inside level cs)"
| "indented_text Outside level (c # cs) =
     (if c = 0x22 then indented_text Inside level cs
      else if is_open c then
        (take 1 cs = [0x0A] \<or> (cs \<noteq> [] \<and> is_close (hd cs)))
        \<and> indented_text Outside (Suc level) cs
      else if is_close c then 0 < level \<and> indented_text Outside (level - 1) cs
      else if c = 0x2C then take 1 cs = [0x0A] \<and> indented_text Outside level cs
      else if c = 0x0A then
        (let n = length (takeWhile (\<lambda>x. x = 0x20) cs) in
         n < length cs \<and> n = 2 * (if is_close (cs ! n) then level - 1 else level))
        \<and> indented_text Outside level cs
      else indented_text Outside level cs)"

text \<open>
  For the proofs: the code units that make up numbers and literals, and what the text
  of one value is like at a level of nesting: it is not empty, starts neither with a
  space nor with a closing bracket, and reading it leaves the level as it was.
\<close>

definition token_unit :: "code_unit \<Rightarrow> bool" where
  "token_unit c = (c \<noteq> 0x20 \<and> c \<noteq> 0x22 \<and> c \<noteq> 0x2C \<and> c \<noteq> 0x0A \<and> \<not> is_open c \<and> \<not> is_close c)"

definition value_text :: "nat \<Rightarrow> jsstring \<Rightarrow> bool" where
  "value_text level s =
     (s \<noteq> [] \<and> hd s \<noteq> 0x20 \<and> \<not> is_close (hd s)
      \<and> (\<forall>rest. indented_text Outside level (s @ rest) = indented_text Outside level rest))"

section \<open>The helpers\<close>

subsection \<open>generateId\<close>

text \<open>
  \<^verbatim>\<open>return Math.random().toString(36).substr(2, 9);\<close>

  \<open>Math.random()\<close> returns a Number in the interval from 0 (inclusive) to 1
  (exclusive). \<open>Number.prototype.toString(36)\<close> renders such a number as \<open>0\<close> when it
  is zero and as \<open>0.\<close> followed by base-36 digits of its fraction otherwise, each
  digit taken from the table \<open>radix_chars\<close>. Which digits are emitted for which
  double is floating-point arithmetic of the host; the outcome of the random source is
  therefore represented by the sequence of digit values that the host emits for it.
\<close>

definition radix_chars :: jsstring where
  "radix_chars = lit ''0123456789abcdefghijklmnopqrstuvwxyz''"

definition toString36 :: "nat list \<Rightarrow> jsstring" where
  "toString36 ds = (if ds = [] then lit ''0'' else lit ''0.'' @ map (\<lambda>d. radix_chars ! d) ds)"

text \<open>
  \<open>String.prototype.substr(start, length)\<close> on integral arguments: a negative start
  counts from the end, the start is clamped to the size, and the end to the size.
\<close>

definition substr :: "jsstring \<Rightarrow> int \<Rightarrow> int \<Rightarrow> jsstring" where
  "substr s start len =
     (let size = int (length s);
          intStart = (if start < 0 then max (size + start) 0 else min start size);
          intLength = min (max len 0) size;
          intEnd = min (intStart + intLength) size
      in drop (nat intStart) (take (nat intEnd) s))"

definition generateId_of :: "nat list \<Rightarrow> jsstring" where
  "generateId_of outcome = substr (toString36 outcome) 2 9"

text \<open>
  The call in a host state. \<open>Number.prototype.toString(radix)\<close> throws a RangeError
  for a radix outside 2 to 36; the digits of the outcome are the host's digits in the
  radix asked for.
\<close>

definition Number_toString :: "int \<Rightarrow> nat list \<Rightarrow> error + jsstring" where
  "Number_toString radix outcome =
     (if radix < 2 \<or> 36 < radix then Inl RangeError else Inr (toString36 outcome))"

definition generateId :: "world \<Rightarrow> error + (jsstring \<times> world)" where
  "generateId w =
     (case Math_random w of
        (outcome, w') \<Rightarrow>
          (case Number_toString 36 outcome of
             Inl e \<Rightarrow> Inl e
           | Inr s \<Rightarrow> Inr (substr s 2 9, w')))"

subsection \<open>sleep\<close>

text \<open>
  \<^verbatim>\<open>return new Promise((resolve) => setTimeout(resolve, ms));\<close>

  A new pending promise, and a timer registered with the delay \<open>ms\<close> that resolves
  it. When the host runs the timer is the host's business and is not modelled.
\<close>

definition sleep :: "number \<Rightarrow> world \<Rightarrow> error + (nat \<times> world)" where
  "sleep ms w =
     (let p = promises w;
          w1 = w\<lparr>promises := Suc p\<rparr>
      in Inr (p, setTimeout p ms w1))"

subsection \<open>logWithTimestamp\<close>

text \<open>
  \<^verbatim>\<open>
  const timestamp = new Date().toISOString();
  if (data) {
    console.log(`[${timestamp}] ${message}:`, data);
  } else {
    console.log(`[${timestamp}] ${message}`);
  }
  \<close>
  The optional parameter is \<open>None\<close> when the call passes no second argument; the
  parameter then holds \<open>undefined\<close>.
\<close>

definition logWithTimestamp :: "jsstring \<Rightarrow> jsval option \<Rightarrow> world \<Rightarrow> error + world" where
  "logWithTimestamp message data_arg w =
     (let data = (case data_arg of None \<Rightarrow> JUndefined | Some v \<Rightarrow> v) in
      case toISOString (Date_new w) of
        Inl e \<Rightarrow> Inl e
      | Inr timestamp \<Rightarrow>
          if ToBoolean data
          then Inr (console_log
                 [JString (lit ''['' @ timestamp @ lit ''] '' @ message @ lit '':''), data] w)
          else Inr (console_log [JString (lit ''['' @ timestamp @ lit ''] '' @ message)] w))"

subsection \<open>formatState\<close>

text \<open>
  \<^verbatim>\<open>return JSON.stringify(state, null, 2);\<close>

  The call in a host state: the serialisation has the room that the stack has left,
  and user code in \<open>state\<close> reads the clock.
\<close>

definition formatState :: "host \<Rightarrow> jsval \<Rightarrow> world \<Rightarrow> error + jsstring option" where
  "formatState h state w =
     JSON_stringify h (clock w) (stack_room w) state (JNumber (Finite 2))"

text \<open>
  The wording of the specification, to compare with: the serialisation primitive
  applied to the value with an indent of two spaces.
\<close>

definition spec_stringify_indent2 :: "host \<Rightarrow> jsval \<Rightarrow> world \<Rightarrow> error + jsstring option" where
  "spec_stringify_indent2 h x w =
     SerializeJSONProperty h (clock w) (stack_room w) [0x20, 0x20] [] x"

subsection \<open>Calls of the helpers\<close>

text \<open>
  A call of one of the four exported functions, run in a host state: what it returns
  (or throws) and the host state after it.
\<close>

datatype call =
    Sleep number
  | GenerateId
  | FormatState jsval
  | LogWithTimestamp jsstring "jsval option"

datatype return_value = RPromise nat | RString "jsstring option" | RVoid

fun run_call :: "host \<Rightarrow> call \<Rightarrow> world \<Rightarrow> error + (return_value \<times> world)" where
  "run_call h (Sleep ms) w =
     (case sleep ms w of Inl e \<Rightarrow> Inl e | Inr (p, w') \<Rightarrow> Inr (RPromise p, w'))"
| "run_call h GenerateId w =
     (case generateId w of Inl e \<Rightarrow> Inl e | Inr (s, w') \<Rightarrow> Inr (RString (Some s), w'))"
| "run_call h (FormatState state) w =
     (case formatState h state w of Inl e \<Rightarrow> Inl e | Inr r \<Rightarrow> Inr (RString r, w))"
| "run_call h (LogWithTimestamp message data_arg) w =
     (case logWithTimestamp message data_arg w of Inl e \<Rightarrow> Inl e | Inr w' \<Rightarrow> Inr (RVoid, w'))"

subsection \<open>A host state and a host for examples\<close>

text \<open>
  The clock at the epoch, a random source that always returns 0, nothing logged, room
  for 1000 nested calls on the stack.
\<close>

definition epoch_world :: world where
  "epoch_world = \<lparr>clock = 0, random_source = (\<lambda>n. []), random_calls = 0, console = [],
      promises = 0, timers = [], stack_room = 1000\<rparr>"

text \<open>
  A host for examples whose numbers are safe integers: those never reach the host's
  conversions, which are stubs here.
\<close>

definition example_host :: host where
  "example_host = \<lparr>shortest_digits = (\<lambda>q. (0, 0)), to_double = (\<lambda>q. NaN)\<rparr>"

text \<open>
  An object whose \<open>toJSON\<close> method returns the current time:
  \<^verbatim>\<open>{ toJSON() { return Date.now(); } }\<close>.
\<close>

definition clock_reader :: jsval where
  "clock_reader = JToJSON (\<lambda>t. Inr (JNumber (Finite (of_int t))))"

section \<open>Properties of generateId\<close>




text \<open>The call returns the identifier of the outcome drawn, and never throws.\<close>

lemma generateId_returns:
  "generateId w = Inr (generateId_of (random_source w (random_calls w)),
                       w\<lparr>random_calls := Suc (random_calls w)\<rparr>)"
  by (simp add: generateId_def Math_random_def Number_toString_def generateId_of_def)




section \<open>Properties of dates\<close>

text \<open>
  The calendar functions: the computed year is the year ECMA-262 defines, the fields
  of a time value are in their ranges, and the timestamp of a time value reads back
  as that time value.
\<close>

lemma div_bounds: "0 < k \<Longrightarrow> k * (x div k) \<le> x \<and> x < k * (x div k) + k" for x k :: int
proof -
  assume k: "0 < k"
  have "x = k * (x div k) + x mod k" by simp
  moreover from k have "0 \<le> x mod k" "x mod k < k" by simp_all
  ultimately show ?thesis by linarith
qed

lemma DayFromYear_400_lin:
  fixes y a b c :: int
  assumes "4 * a \<le> y - 1969" "y - 1969 < 4 * a + 4"
    and "100 * b \<le> y - 1901" "y - 1901 < 100 * b + 100"
    and "400 * c \<le> y - 1601" "y - 1601 < 400 * c + 400"
  shows "146097 * (y - 1970) - 506 \<le> 400 * (365 * (y - 1970) + a - b + c) \<and>
   400 * (365 * (y - 1970) + a - b + c) \<le> 146097 * (y - 1970) + 589"
  using assms by (simp add: algebra_simps)

lemma DayFromYear_400:
  "146097 * (y - 1970) - 506 \<le> 400 * DayFromYear y \<and>
   400 * DayFromYear y \<le> 146097 * (y - 1970) + 589"
proof -
  have a: "4 * ((y - 1969) div 4) \<le> y - 1969 \<and> y - 1969 < 4 * ((y - 1969) div 4) + 4"
    by (rule div_bounds) simp
  have b: "100 * ((y - 1901) div 100) \<le> y - 1901 \<and> y - 1901 < 100 * ((y - 1901) div 100) + 100"
    by (rule div_bounds) simp
  have c: "400 * ((y - 1601) div 400) \<le> y - 1601 \<and> y - 1601 < 400 * ((y - 1601) div 400) + 400"
    by (rule div_bounds) simp
  show ?thesis unfolding DayFromYear_def
    using a b c by (intro DayFromYear_400_lin) simp_all
qed

lemma div_succ:
  "0 < k \<Longrightarrow> (x + 1) div k = (if (x + 1) mod k = 0 then x div k + 1 else x div k)" for x k :: int
proof -
  assume k: "0 < k"
  have e1: "x = k * (x div k) + x mod k" by simp
  from k have b1: "0 \<le> x mod k" "x mod k < k" by simp_all
  have d: "k * (x div k + 1) = k * (x div k) + k" by (simp add: algebra_simps)
  show ?thesis
  proof (cases "x mod k = k - 1")
    case True
    have "x + 1 = k * (x div k + 1) + 0" using e1 d True by linarith
    then have "(x + 1) div k = x div k + 1" "(x + 1) mod k = 0"
      using k int_div_pos_eq [of "x + 1" k "x div k + 1" 0]
        int_mod_pos_eq [of "x + 1" k "x div k + 1" 0] by simp_all
    then show ?thesis by simp
  next
    case False
    with b1 have lt: "x mod k + 1 < k" by linarith
    have "x + 1 = k * (x div k) + (x mod k + 1)" using e1 by linarith
    then have "(x + 1) div k = x div k" "(x + 1) mod k = x mod k + 1"
      using k lt b1 int_div_pos_eq [of "x + 1" k "x div k" "x mod k + 1"]
        int_mod_pos_eq [of "x + 1" k "x div k" "x mod k + 1"] by simp_all
    with b1 show ?thesis by simp
  qed
qed

lemma mod_shift: "(y - k * n) mod k = y mod k" for y k n :: int
proof -
  have "(y + k * (- n)) mod k = y mod k" by (rule mod_mult_self2)
  then show ?thesis by simp
qed

lemma m4: "(y - 1968) mod 4 = 0 \<longleftrightarrow> y mod 4 = 0" for y :: int
  using mod_shift [of y 4 492] by simp
lemma m100: "(y - 1900) mod 100 = 0 \<longleftrightarrow> y mod 100 = 0" for y :: int
  using mod_shift [of y 100 19] by simp
lemma m400: "(y - 1600) mod 400 = 0 \<longleftrightarrow> y mod 400 = 0" for y :: int
  using mod_shift [of y 400 4] by simp
lemma mm1: "y mod 100 = 0 \<Longrightarrow> y mod 4 = 0" for y :: int
  using mod_mod_cancel [of 4 100 y] by simp
lemma mm2: "y mod 400 = 0 \<Longrightarrow> y mod 100 = 0" for y :: int
  using mod_mod_cancel [of 100 400 y] by simp

lemma DayFromYear_Suc: "DayFromYear (y + 1) = DayFromYear y + DaysInYear y"
proof -
  have a: "(y + 1 - 1969) div 4 = (y - 1969) div 4 + (if y mod 4 = 0 then 1 else 0)"
    using div_succ [of 4 "y - 1969"] m4 [of y] by (simp add: algebra_simps)
  have b: "(y + 1 - 1901) div 100 = (y - 1901) div 100 + (if y mod 100 = 0 then 1 else 0)"
    using div_succ [of 100 "y - 1901"] m100 [of y] by (simp add: algebra_simps)
  have c: "(y + 1 - 1601) div 400 = (y - 1601) div 400 + (if y mod 400 = 0 then 1 else 0)"
    using div_succ [of 400 "y - 1601"] m400 [of y] by (simp add: algebra_simps)
  show ?thesis
    unfolding DayFromYear_def DaysInYear_def a b c
    using mm1 [of y] mm2 [of y] by (simp split: if_splits)
qed


lemma YearFromTime_bracket:
  "DayFromYear (YearFromTime t) \<le> Day t \<and> Day t < DayFromYear (YearFromTime t + 1)"
proof -
  define d where "d = Day t"
  define e where "e = (400 * d) div 146097"
  have eb: "146097 * e \<le> 400 * d \<and> 400 * d < 146097 * e + 146097"
    unfolding e_def by (rule div_bounds) simp
  have lo: "DayFromYear (1970 + e - 1) \<le> d"
    using DayFromYear_400 [of "1970 + e - 1"] eb by (simp add: algebra_simps)
  have hi: "d < DayFromYear (1970 + e + 1 + 1)"
    using DayFromYear_400 [of "1970 + e + 1 + 1"] eb by (simp add: algebra_simps)
  have Y: "YearFromTime t =
     (if DayFromYear (1970 + e + 1) \<le> d then 1970 + e + 1
      else if DayFromYear (1970 + e) \<le> d then 1970 + e else 1970 + e - 1)"
    by (simp add: YearFromTime_def Let_def d_def e_def)
  show ?thesis
    unfolding Y d_def [symmetric] using lo hi by (simp add: algebra_simps)
qed

lemma DaysInYear_cases: "DaysInYear y = 365 \<or> DaysInYear y = 366"
  by (simp add: DaysInYear_def)

lemma DayWithinYear_range:
  "0 \<le> DayWithinYear t \<and> DayWithinYear t < DaysInYear (YearFromTime t)"
  using YearFromTime_bracket [of t] DayFromYear_Suc [of "YearFromTime t"]
  by (simp add: DayWithinYear_def)

lemma DayFromYear_mono: "y \<le> z \<Longrightarrow> DayFromYear y \<le> DayFromYear z"
proof (induction z rule: int_ge_induct)
  case base
  show ?case by simp
next
  case (step i)
  have "DayFromYear (i + 1) = DayFromYear i + DaysInYear i" by (rule DayFromYear_Suc)
  with step.IH DaysInYear_cases [of i] show ?case by auto
qed

lemma YearFromTime_largest:
  "DayFromYear (YearFromTime t) \<le> Day t \<and> (\<forall>y. DayFromYear y \<le> Day t \<longrightarrow> y \<le> YearFromTime t)"
proof (intro conjI allI impI)
  show "DayFromYear (YearFromTime t) \<le> Day t" using YearFromTime_bracket by blast
next
  fix y assume y: "DayFromYear y \<le> Day t"
  show "y \<le> YearFromTime t"
  proof (rule ccontr)
    assume "\<not> y \<le> YearFromTime t"
    then have "YearFromTime t + 1 \<le> y" by simp
    then have "DayFromYear (YearFromTime t + 1) \<le> DayFromYear y" by (rule DayFromYear_mono)
    with y YearFromTime_bracket [of t] show False by linarith
  qed
qed

lemma MonthFromTime_range: "0 \<le> MonthFromTime t \<and> MonthFromTime t \<le> 11"
  by (simp add: MonthFromTime_def Let_def)

lemma InLeapYear_eq: "InLeapYear t = (if DaysInYear (YearFromTime t) = 366 then 1 else 0)"
  by (simp add: InLeapYear_def)

lemma DayWithinYear_fields:
  "DayWithinYear t = month_start (InLeapYear t) (MonthFromTime t) + DateFromTime t - 1"
  by (simp add: DateFromTime_def)

lemma time_fields_range:
  "0 \<le> HourFromTime t \<and> HourFromTime t < 24 \<and> 0 \<le> MinFromTime t \<and> MinFromTime t < 60
   \<and> 0 \<le> SecFromTime t \<and> SecFromTime t < 60 \<and> 0 \<le> msFromTime t \<and> msFromTime t < 1000"
  by (simp add: HourFromTime_def MinFromTime_def SecFromTime_def msFromTime_def)

lemma month_table:
  fixes d L :: int
  assumes d: "0 \<le> d" "d < 365 + L" and L: "L = 0 \<or> L = 1"
    and m_def: "m = (if d < 31 then 0 else if d < 59 + L then 1 else if d < 90 + L then 2
         else if d < 120 + L then 3 else if d < 151 + L then 4
         else if d < 181 + L then 5 else if d < 212 + L then 6
         else if d < 243 + L then 7 else if d < 273 + L then 8
         else if d < 304 + L then 9 else if d < 334 + L then 10 else (11::int))"
  shows "1 \<le> d - month_start L m + 1 \<and>
         d - month_start L m + 1 \<le> (if m = 1 then 28 + L
              else if m = 3 \<or> m = 5 \<or> m = 8 \<or> m = 10 then 30 else 31)"
proof -
  consider "d < 31" | "31 \<le> d" "d < 59 + L" | "59 + L \<le> d" "d < 90 + L"
    | "90 + L \<le> d" "d < 120 + L" | "120 + L \<le> d" "d < 151 + L"
    | "151 + L \<le> d" "d < 181 + L" | "181 + L \<le> d" "d < 212 + L"
    | "212 + L \<le> d" "d < 243 + L" | "243 + L \<le> d" "d < 273 + L"
    | "273 + L \<le> d" "d < 304 + L" | "304 + L \<le> d" "d < 334 + L" | "334 + L \<le> d"
    by linarith
  then show ?thesis
  proof cases
    case 1 with d L show ?thesis by (simp add: m_def month_start_def)
  next
    case 2 with d L have "m = 1" by (simp add: m_def)
    with 2 show ?thesis by (simp add: month_start_def)
  next
    case 3 with d L have "m = 2" by (auto simp add: m_def)
    with 3 show ?thesis by (simp add: month_start_def)
  next
    case 4 with d L have "m = 3" by (auto simp add: m_def)
    with 4 show ?thesis by (simp add: month_start_def)
  next
    case 5 with d L have "m = 4" by (auto simp add: m_def)
    with 5 show ?thesis by (simp add: month_start_def)
  next
    case 6 with d L have "m = 5" by (auto simp add: m_def)
    with 6 show ?thesis by (simp add: month_start_def)
  next
    case 7 with d L have "m = 6" by (auto simp add: m_def)
    with 7 show ?thesis by (simp add: month_start_def)
  next
    case 8 with d L have "m = 7" by (auto simp add: m_def)
    with 8 show ?thesis by (simp add: month_start_def)
  next
    case 9 with d L have "m = 8" by (auto simp add: m_def)
    with 9 show ?thesis by (simp add: month_start_def)
  next
    case 10 with d L have "m = 9" by (auto simp add: m_def)
    with 10 show ?thesis by (simp add: month_start_def)
  next
    case 11 with d L have "m = 10" by (auto simp add: m_def)
    with 11 show ?thesis by (simp add: month_start_def)
  next
    case 12 with d L have "m = 11" by (auto simp add: m_def)
    with 12 d show ?thesis by (simp add: month_start_def)
  qed
qed

lemma DateFromTime_range:
  "1 \<le> DateFromTime t \<and> DateFromTime t \<le> days_in_month (YearFromTime t) (MonthFromTime t)"
proof -
  have L: "InLeapYear t = 0 \<or> InLeapYear t = 1" by (simp add: InLeapYear_def)
  have "DaysInYear (YearFromTime t) = 365 + InLeapYear t"
    using DaysInYear_cases [of "YearFromTime t"] by (auto simp add: InLeapYear_def)
  with DayWithinYear_range [of t]
  have d: "0 \<le> DayWithinYear t" "DayWithinYear t < 365 + InLeapYear t" by simp_all
  have dim: "days_in_month (YearFromTime t) (MonthFromTime t) =
      (if MonthFromTime t = 1 then 28 + InLeapYear t
       else if MonthFromTime t = 3 \<or> MonthFromTime t = 5 \<or> MonthFromTime t = 8 \<or> MonthFromTime t = 10
       then 30 else 31)"
    by (simp add: days_in_month_def InLeapYear_def)
  have M: "MonthFromTime t = (if DayWithinYear t < 31 then 0
         else if DayWithinYear t < 59 + InLeapYear t then 1
         else if DayWithinYear t < 90 + InLeapYear t then 2
         else if DayWithinYear t < 120 + InLeapYear t then 3
         else if DayWithinYear t < 151 + InLeapYear t then 4
         else if DayWithinYear t < 181 + InLeapYear t then 5
         else if DayWithinYear t < 212 + InLeapYear t then 6
         else if DayWithinYear t < 243 + InLeapYear t then 7
         else if DayWithinYear t < 273 + InLeapYear t then 8
         else if DayWithinYear t < 304 + InLeapYear t then 9
         else if DayWithinYear t < 334 + InLeapYear t then 10 else 11)"
    by (simp add: MonthFromTime_def Let_def)
  from month_table [OF d L M] show ?thesis
    by (simp only: dim DateFromTime_def)
qed

lemma digit_val_digit: "d < 10 \<Longrightarrow> digit_val (digit d) = Some d"
proof -
  assume d: "d < 10"
  have "unat (of_nat (48 + d) :: code_unit) = (48 + d) mod 2 ^ LENGTH(16)"
    by (rule unat_of_nat)
  with d have u: "unat (of_nat (48 + d) :: code_unit) = 48 + d" by simp
  have "(48 :: code_unit) \<le> of_nat (48 + d)" "(of_nat (48 + d) :: code_unit) \<le> 57"
    using d u by (simp_all add: word_le_nat_alt)
  with u show ?thesis by (simp add: digit_val_def digit_def)
qed

lemma length_pad [simp]: "length (pad k n) = k"
  by (induction k arbitrary: n) simp_all

lemma read_digits_append:
  "read_digits acc (xs @ ys) =
     (case read_digits acc xs of None \<Rightarrow> None | Some a \<Rightarrow> read_digits a ys)"
  by (induction xs arbitrary: acc) (simp_all split: option.splits)

lemma read_digits_pad: "n < 10 ^ k \<Longrightarrow> read_digits acc (pad k n) = Some (acc * 10 ^ k + n)"
proof (induction k arbitrary: n acc)
  case 0
  then show ?case by simp
next
  case (Suc k)
  from Suc.prems have "n div 10 < 10 ^ k" by (simp add: less_mult_imp_div_less mult.commute)
  then have "read_digits acc (pad k (n div 10)) = Some (acc * 10 ^ k + n div 10)"
    by (rule Suc.IH)
  moreover have "digit_val (digit (n mod 10)) = Some (n mod 10)"
    by (rule digit_val_digit) simp
  ultimately show ?case
    by (simp add: read_digits_append algebra_simps)
qed

lemma pad_digits: "c \<in> set (pad k n) \<Longrightarrow> \<exists>d < 10. c = digit d"
proof (induction k arbitrary: n)
  case 0
  then show ?case by simp
next
  case (Suc k)
  then show ?case by (auto intro: exI [of _ "n mod 10"])
qed

lemma digit_not_sign: "d < 10 \<Longrightarrow> digit d \<noteq> cu CHR ''+'' \<and> digit d \<noteq> cu CHR ''-''"
proof -
  assume d: "d < 10"
  have "unat (of_nat (48 + d) :: code_unit) = (48 + d) mod 2 ^ LENGTH(16)"
    by (rule unat_of_nat)
  with d have u: "unat (digit d) = 48 + d" by (simp add: digit_def)
  have "unat (cu CHR ''+'') = 43" "unat (cu CHR ''-'') = 45" by (simp_all add: cu_def)
  with u show ?thesis by auto
qed

lemma read_field_pad:
  "n < 10 ^ k \<Longrightarrow> read_field [c] k (cu c # pad k n @ rest) = Some (int n, rest)"
  by (simp add: read_field_def lit_def read_digits_pad)

lemma Day_range:
  assumes "\<bar>t\<bar> \<le> 8640000000000000"
  shows "- 100000000 \<le> Day t \<and> Day t \<le> 100000000"
proof -
  from assms have "t \<le> 8640000000000000" "- 8640000000000000 \<le> t" by simp_all
  then have "t div 86400000 \<le> 8640000000000000 div 86400000"
    "(- 8640000000000000) div 86400000 \<le> t div 86400000"
    by (simp_all add: zdiv_mono1)
  then show ?thesis by (simp add: Day_def msPerDay_def)
qed

lemma YearFromTime_range:
  assumes "\<bar>t\<bar> \<le> 8640000000000000"
  shows "- 271821 \<le> YearFromTime t \<and> YearFromTime t \<le> 275760"
proof -
  note d = Day_range [OF assms]
  note b = YearFromTime_bracket [of t]
  have "146097 * (YearFromTime t - 1970) - 506 \<le> 400 * DayFromYear (YearFromTime t)"
    using DayFromYear_400 [of "YearFromTime t"] by simp
  with b d have hi: "YearFromTime t \<le> 275760" by (simp add: algebra_simps)
  have "400 * DayFromYear (YearFromTime t + 1) \<le> 146097 * (YearFromTime t + 1 - 1970) + 589"
    using DayFromYear_400 [of "YearFromTime t + 1"] by simp
  with b d have lo: "- 271821 \<le> YearFromTime t" by (simp add: algebra_simps)
  from lo hi show ?thesis by simp
qed

lemma pad_hd_not_sign:
  assumes "0 < k"
  shows "hd (pad k n @ rest) \<noteq> cu CHR ''+'' \<and> hd (pad k n @ rest) \<noteq> cu CHR ''-''"
proof -
  from assms have ne: "pad k n \<noteq> []" by (cases k) simp_all
  then have "hd (pad k n @ rest) = hd (pad k n)" by (rule hd_append2)
  moreover from ne have "hd (pad k n) \<in> set (pad k n)" by (rule hd_in_set)
  ultimately obtain d where "d < 10" "hd (pad k n @ rest) = digit d"
    using pad_digits by metis
  then show ?thesis using digit_not_sign by simp
qed

lemma read_year_string:
  assumes "- 999999 \<le> y" "y \<le> 999999"
  shows "read_year (year_string y @ rest) = Some (y, rest)"
proof -
  define s where "s = year_string y @ rest"
  consider "0 \<le> y \<and> y \<le> 9999" | "9999 < y" | "y < 0" by linarith
  then have "read_year s = Some (y, rest)"
  proof cases
    case 1
    then have n: "nat y < 10 ^ 4" by (simp add: nat_less_iff)
    have s: "s = pad 4 (nat y) @ rest" using 1 by (simp add: s_def year_string_def)
    have hd: "hd s \<noteq> cu CHR ''+''" "hd s \<noteq> cu CHR ''-''"
      using pad_hd_not_sign [of 4 "nat y" rest] by (simp_all add: s)
    have t: "take 4 s = pad 4 (nat y)" "drop 4 s = rest" "\<not> length s < 4"
      by (simp_all add: s)
    have r: "read_digits 0 (pad 4 (nat y)) = Some (nat y)" using read_digits_pad [OF n, of 0] by simp
    have "read_year s = Some (int (nat y), rest)"
      by (simp only: read_year_def hd t r simp_thms if_False option.case)
    with 1 show ?thesis by simp
  next
    case 2
    with assms have n: "nat \<bar>y\<bar> < 10 ^ 6" by (simp add: nat_less_iff)
    have s: "s = cu CHR ''+'' # pad 6 (nat \<bar>y\<bar>) @ rest"
      using 2 by (simp add: s_def year_string_def lit_def)
    have t: "s \<noteq> []" "hd s = cu CHR ''+''" "take 6 (tl s) = pad 6 (nat \<bar>y\<bar>)" "drop 7 s = rest"
      "\<not> length s < 7"
      by (simp_all add: s)
    have r: "read_digits 0 (pad 6 (nat \<bar>y\<bar>)) = Some (nat \<bar>y\<bar>)"
      using read_digits_pad [OF n, of 0] by simp
    have "read_year s = Some (int (nat \<bar>y\<bar>), rest)"
      by (simp only: read_year_def t r simp_thms if_True if_False option.case)
    with 2 show ?thesis by simp
  next
    case 3
    with assms have n: "nat \<bar>y\<bar> < 10 ^ 6" by (simp add: nat_less_iff)
    have s: "s = cu CHR ''-'' # pad 6 (nat \<bar>y\<bar>) @ rest"
      using 3 by (simp add: s_def year_string_def lit_def)
    have ne: "cu CHR ''-'' \<noteq> cu CHR ''+''" by (simp add: cu_def)
    have t: "s \<noteq> []" "hd s = cu CHR ''-''" "take 6 (tl s) = pad 6 (nat \<bar>y\<bar>)" "drop 7 s = rest"
      "\<not> length s < 7"
      by (simp_all add: s)
    have r: "read_digits 0 (pad 6 (nat \<bar>y\<bar>)) = Some (nat \<bar>y\<bar>)"
      using read_digits_pad [OF n, of 0] by simp
    have z: "nat \<bar>y\<bar> \<noteq> 0" using 3 by simp
    have "read_year s = Some (- int (nat \<bar>y\<bar>), rest)"
      by (simp only: read_year_def t r ne z simp_thms if_True if_False option.case)
    with 3 show ?thesis by simp
  qed
  then show ?thesis by (simp only: s_def)
qed

lemma read_field_lit:
  "0 \<le> n \<Longrightarrow> n < 10 ^ k \<Longrightarrow> read_field [c] k (lit [c] @ pad k (nat n) @ rest) = Some (n, rest)"
  using read_field_pad [of "nat n" k c rest] by (simp add: lit_def nat_less_iff)

lemma parse_fields:
  assumes y: "- 999999 \<le> y" "y \<le> 999999"
    and mo: "1 \<le> mo" "mo \<le> 12" and d: "1 \<le> d" "d \<le> days_in_month y (mo - 1)"
    and h: "0 \<le> h" "h < 24" and mi: "0 \<le> mi" "mi < 60" and sec: "0 \<le> sec" "sec < 60"
    and ms: "0 \<le> ms" "ms < 1000"
  shows "parse_iso8601 (year_string y @ lit ''-'' @ pad 2 (nat mo) @ lit ''-''
          @ pad 2 (nat d) @ lit ''T'' @ pad 2 (nat h) @ lit '':''
          @ pad 2 (nat mi) @ lit '':'' @ pad 2 (nat sec) @ lit ''.''
          @ pad 3 (nat ms) @ lit ''Z'')
        = Some (msPerDay * (DayFromYear y
                     + month_start (if DaysInYear y = 366 then 1 else 0) (mo - 1) + d - 1)
                   + h * 3600000 + mi * 60000 + sec * 1000 + ms)"
proof -
  define s7 where "s7 = lit ''Z''"
  define s6 where "s6 = lit ''.'' @ pad 3 (nat ms) @ s7"
  define s5 where "s5 = lit '':'' @ pad 2 (nat sec) @ s6"
  define s4 where "s4 = lit '':'' @ pad 2 (nat mi) @ s5"
  define s3 where "s3 = lit ''T'' @ pad 2 (nat h) @ s4"
  define s2 where "s2 = lit ''-'' @ pad 2 (nat d) @ s3"
  define s1 where "s1 = lit ''-'' @ pad 2 (nat mo) @ s2"
  have dd: "0 \<le> d" "d < 10 ^ 2" using d by (simp_all add: days_in_month_def split: if_splits)
  have e0: "read_year (year_string y @ s1) = Some (y, s1)" by (rule read_year_string [OF y])
  have e1: "read_field ''-'' 2 s1 = Some (mo, s2)"
    unfolding s1_def using mo by (intro read_field_lit) simp_all
  have e2: "read_field ''-'' 2 s2 = Some (d, s3)"
    unfolding s2_def using dd by (intro read_field_lit) simp_all
  have e3: "read_field ''T'' 2 s3 = Some (h, s4)"
    unfolding s3_def using h by (intro read_field_lit) simp_all
  have e4: "read_field '':'' 2 s4 = Some (mi, s5)"
    unfolding s4_def using mi by (intro read_field_lit) simp_all
  have e5: "read_field '':'' 2 s5 = Some (sec, s6)"
    unfolding s5_def using sec by (intro read_field_lit) simp_all
  have e6: "read_field ''.'' 3 s6 = Some (ms, s7)"
    unfolding s6_def using ms by (intro read_field_lit) simp_all
  have "parse_iso8601 (year_string y @ s1) =
     (if s7 = lit ''Z'' \<and> 1 \<le> mo \<and> mo \<le> 12 \<and> 1 \<le> d \<and> d \<le> days_in_month y (mo - 1)
           \<and> h < 24 \<and> mi < 60 \<and> sec < 60
        then Some (msPerDay * (DayFromYear y
                     + month_start (if DaysInYear y = 366 then 1 else 0) (mo - 1) + d - 1)
                   + h * 3600000 + mi * 60000 + sec * 1000 + ms)
        else None)"
    unfolding parse_iso8601_def
    by (simp only: e0 e1 e2 e3 e4 e5 e6 option.case prod.case)
  also have "\<dots> = Some (msPerDay * (DayFromYear y
                     + month_start (if DaysInYear y = 366 then 1 else 0) (mo - 1) + d - 1)
                   + h * 3600000 + mi * 60000 + sec * 1000 + ms)"
    using mo d h mi sec by (simp only: s7_def) simp
  finally show ?thesis
    by (simp only: s1_def s2_def s3_def s4_def s5_def s6_def s7_def)
qed


lemma time_of_day:
  "TimeWithinDay t = HourFromTime t * 3600000 + MinFromTime t * 60000 + SecFromTime t * 1000 + msFromTime t"
proof -
  have a: "t = 1000 * (t div 1000) + t mod 1000" by simp
  have b: "t div 1000 = 60 * ((t div 1000) div 60) + (t div 1000) mod 60" by simp
  have b': "(t div 1000) div 60 = t div 60000" by (simp add: zdiv_zmult2_eq [symmetric])
  have c: "t div 60000 = 60 * ((t div 60000) div 60) + (t div 60000) mod 60" by simp
  have c': "(t div 60000) div 60 = t div 3600000" by (simp add: zdiv_zmult2_eq [symmetric])
  have d: "t div 3600000 = 24 * ((t div 3600000) div 24) + (t div 3600000) mod 24" by simp
  have d': "(t div 3600000) div 24 = t div 86400000" by (simp add: zdiv_zmult2_eq [symmetric])
  have e: "t = 86400000 * (t div 86400000) + t mod 86400000" by simp
  from a b b' c c' d d' e show ?thesis
    unfolding TimeWithinDay_def msPerDay_def HourFromTime_def MinFromTime_def SecFromTime_def
      msFromTime_def
    by linarith
qed



lemma time_value_fields:
  "t = msPerDay * (DayFromYear (YearFromTime t)
          + month_start (if DaysInYear (YearFromTime t) = 366 then 1 else 0) (MonthFromTime t)
          + DateFromTime t - 1)
       + HourFromTime t * 3600000 + MinFromTime t * 60000 + SecFromTime t * 1000 + msFromTime t"
proof -
  have "t = msPerDay * Day t + TimeWithinDay t"
    by (simp add: Day_def TimeWithinDay_def)
  moreover have "Day t = DayFromYear (YearFromTime t) + DayWithinYear t"
    by (simp add: DayWithinYear_def)
  moreover have "DayWithinYear t =
      month_start (if DaysInYear (YearFromTime t) = 366 then 1 else 0) (MonthFromTime t)
      + DateFromTime t - 1"
    using DayWithinYear_fields [of t] by (simp only: InLeapYear_eq)
  ultimately show ?thesis using time_of_day [of t] by (simp add: algebra_simps)
qed

lemma parse_toISOString:
  assumes "\<bar>t\<bar> \<le> 8640000000000000"
  shows "\<exists>s. toISOString (TimeClip t) = Inr s \<and> parse_iso8601 s = Some t"
proof -
  note yr = YearFromTime_range [OF assms]
  note mr = MonthFromTime_range [of t]
  note dr = DateFromTime_range [of t]
  note tr = time_fields_range [of t]
  have "parse_iso8601 (year_string (YearFromTime t) @ lit ''-'' @ pad 2 (nat (MonthFromTime t + 1))
          @ lit ''-'' @ pad 2 (nat (DateFromTime t)) @ lit ''T'' @ pad 2 (nat (HourFromTime t))
          @ lit '':'' @ pad 2 (nat (MinFromTime t)) @ lit '':'' @ pad 2 (nat (SecFromTime t))
          @ lit ''.'' @ pad 3 (nat (msFromTime t)) @ lit ''Z'')
        = Some (msPerDay * (DayFromYear (YearFromTime t)
                     + month_start (if DaysInYear (YearFromTime t) = 366 then 1 else 0)
                         (MonthFromTime t + 1 - 1) + DateFromTime t - 1)
                   + HourFromTime t * 3600000 + MinFromTime t * 60000 + SecFromTime t * 1000
                   + msFromTime t)"
    using yr mr dr tr by (intro parse_fields) simp_all
  also have "\<dots> = Some t" using time_value_fields [of t] by simp
  finally show ?thesis using assms by (simp add: toISOString_def TimeClip_def)
qed

section \<open>Properties of logWithTimestamp\<close>

lemma lit_append: "lit (a @ b) = lit a @ lit b"
  by (simp add: lit_def)

lemma toISOString_epoch: "toISOString (TimeClip 0) = Inr (lit ''1970-01-01T00:00:00.000Z'')"
  by code_simp

lemma parse_epoch: "parse_iso8601 (lit ''1970-01-01T00:00:00.000Z'') = Some 0"
  by code_simp

text \<open>
  C9: the branch that appends \<open>data\<close> is taken exactly when \<open>data\<close> is truthy. A
  call with a falsy second argument logs what the call without a second argument
  logs; 0, negative zero, the empty string, false, null and NaN are falsy. A call
  with a truthy second argument logs the message with a colon and the value.
\<close>

theorem logWithTimestamp_truthy:
  "(\<forall>message data w. \<not> ToBoolean data \<longrightarrow>
       logWithTimestamp message (Some data) w = logWithTimestamp message None w)
   \<and> (\<forall>message data w ts. ToBoolean data \<and> toISOString (Date_new w) = Inr ts \<longrightarrow>
       logWithTimestamp message (Some data) w
         = Inr (console_log [JString (lit ''['' @ ts @ lit ''] '' @ message @ lit '':''), data] w))
   \<and> (\<forall>message w ts. toISOString (Date_new w) = Inr ts \<longrightarrow>
       logWithTimestamp message None w
         = Inr (console_log [JString (lit ''['' @ ts @ lit ''] '' @ message)] w))
   \<and> \<not> ToBoolean (JNumber (Finite 0)) \<and> \<not> ToBoolean (JNumber NegZero)
   \<and> \<not> ToBoolean (JString []) \<and> \<not> ToBoolean (JBool False) \<and> \<not> ToBoolean JNull
   \<and> \<not> ToBoolean (JNumber NaN)"
  by (simp add: logWithTimestamp_def split: sum.splits)

theorem logWithTimestamp_truthy_witness:
  "logWithTimestamp (lit ''m'') (Some (JNumber (Finite 0))) epoch_world
     = logWithTimestamp (lit ''m'') None epoch_world
   \<and> logWithTimestamp (lit ''m'') None epoch_world
     = Inr (epoch_world\<lparr>console := [[JString (lit ''[1970-01-01T00:00:00.000Z] m'')]]\<rparr>)
   \<and> logWithTimestamp (lit ''m'') (Some (JNumber (Finite 7))) epoch_world
     = Inr (epoch_world\<lparr>console :=
         [[JString (lit ''[1970-01-01T00:00:00.000Z] m:''), JNumber (Finite 7)]]\<rparr>)"
proof -
  have ts: "toISOString (Date_new epoch_world) = Inr (lit ''1970-01-01T00:00:00.000Z'')"
    using toISOString_epoch by (simp add: Date_new_def epoch_world_def)
  have f: "\<not> ToBoolean (JNumber (Finite 0))" and t: "ToBoolean (JNumber (Finite 7))" by simp_all
  note th = logWithTimestamp_truthy
  have a: "logWithTimestamp (lit ''m'') (Some (JNumber (Finite 0))) epoch_world
     = logWithTimestamp (lit ''m'') None epoch_world"
    using th [THEN conjunct1, THEN spec, THEN spec, THEN spec, THEN mp, OF f] .
  have b: "logWithTimestamp (lit ''m'') None epoch_world
     = Inr (console_log [JString (lit ''['' @ lit ''1970-01-01T00:00:00.000Z'' @ lit ''] '' @ lit ''m'')]
         epoch_world)"
    using th [THEN conjunct2, THEN conjunct2, THEN conjunct1, THEN spec, THEN spec, THEN spec,
        THEN mp, OF ts] .
  have c: "logWithTimestamp (lit ''m'') (Some (JNumber (Finite 7))) epoch_world
     = Inr (console_log [JString (lit ''['' @ lit ''1970-01-01T00:00:00.000Z'' @ lit ''] ''
          @ lit ''m'' @ lit '':''), JNumber (Finite 7)] epoch_world)"
    using th [THEN conjunct2, THEN conjunct1, THEN spec, THEN spec, THEN spec, THEN spec,
        THEN mp, OF conjI [OF t ts]] .
  show ?thesis
    unfolding a b c by (simp add: console_log_def epoch_world_def lit_def)
qed

lemma logWithTimestamp_zero:
  "logWithTimestamp (lit ''m'') (Some (JNumber (Finite 0))) epoch_world
     = Inr (epoch_world\<lparr>console := [[JString (lit ''[1970-01-01T00:00:00.000Z] m'')]]\<rparr>)"
  using toISOString_epoch
  by (simp add: logWithTimestamp_def Date_new_def epoch_world_def console_log_def lit_def)

text \<open>
  C2 as stated fails: a second argument that is provided but falsy is not logged.
  \<open>logWithTimestamp("m", 0)\<close> at the epoch logs the single argument
  \<open>[1970-01-01T00:00:00.000Z] m\<close>.
\<close>

theorem logWithTimestamp_provided_counterexample:
  "\<not> (\<forall>message data w w'. logWithTimestamp message (Some data) w = Inr w' \<longrightarrow>
        data \<in> set (last (console w')))"
proof
  assume "\<forall>message data w w'. logWithTimestamp message (Some data) w = Inr w' \<longrightarrow>
        data \<in> set (last (console w'))"
  with logWithTimestamp_zero
  have "JNumber (Finite 0) \<in> set (last (console
      (epoch_world\<lparr>console := [[JString (lit ''[1970-01-01T00:00:00.000Z] m'')]]\<rparr>)))"
    by blast
  then show False by simp
qed

text \<open>
  C2, amended: with the system clock a valid time value, each call appends exactly
  one call of \<open>console.log\<close> to the console and changes nothing else. Its first
  argument is \<open>[\<close>, a valid ISO 8601 timestamp of the current time, \<open>] \<close> and the
  message; when \<open>data\<close> is truthy a colon follows the message and \<open>data\<close> is the second
  argument, otherwise (also when no second argument is passed) there is no second
  argument.
\<close>

theorem logWithTimestamp_line:
  "\<forall>message data_arg w. \<bar>clock w\<bar> \<le> 8640000000000000 \<longrightarrow>
     (\<exists>ts. parse_iso8601 ts = Some (clock w) \<and>
        logWithTimestamp message data_arg w = Inr (w\<lparr>console := console w @
          [case data_arg of
             None \<Rightarrow> [JString (lit ''['' @ ts @ lit ''] '' @ message)]
           | Some data \<Rightarrow>
               if ToBoolean data
               then [JString (lit ''['' @ ts @ lit ''] '' @ message @ lit '':''), data]
               else [JString (lit ''['' @ ts @ lit ''] '' @ message)]]\<rparr>))"
proof (intro allI impI)
  fix message :: jsstring and data_arg :: "jsval option" and w :: world
  assume "\<bar>clock w\<bar> \<le> 8640000000000000"
  then obtain ts where ts: "toISOString (TimeClip (clock w)) = Inr ts"
    and p: "parse_iso8601 ts = Some (clock w)"
    using parse_toISOString by blast
  from ts have "logWithTimestamp message data_arg w = Inr (w\<lparr>console := console w @
          [case data_arg of
             None \<Rightarrow> [JString (lit ''['' @ ts @ lit ''] '' @ message)]
           | Some data \<Rightarrow>
               if ToBoolean data
               then [JString (lit ''['' @ ts @ lit ''] '' @ message @ lit '':''), data]
               else [JString (lit ''['' @ ts @ lit ''] '' @ message)]]\<rparr>)"
    by (simp add: logWithTimestamp_def Date_new_def console_log_def split: option.splits)
  with p show "\<exists>ts. parse_iso8601 ts = Some (clock w) \<and>
        logWithTimestamp message data_arg w = Inr (w\<lparr>console := console w @
          [case data_arg of
             None \<Rightarrow> [JString (lit ''['' @ ts @ lit ''] '' @ message)]
           | Some data \<Rightarrow>
               if ToBoolean data
               then [JString (lit ''['' @ ts @ lit ''] '' @ message @ lit '':''), data]
               else [JString (lit ''['' @ ts @ lit ''] '' @ message)]]\<rparr>)"
    by blast
qed

theorem logWithTimestamp_line_witness:
  "\<exists>ts. parse_iso8601 ts = Some 0 \<and>
     logWithTimestamp (lit ''m'') (Some (JBool True)) epoch_world
       = Inr (epoch_world\<lparr>console := [[JString (lit ''['' @ ts @ lit ''] m:''), JBool True]]\<rparr>)"
proof -
  have c: "\<bar>clock epoch_world\<bar> \<le> 8640000000000000" by (simp add: epoch_world_def)
  from logWithTimestamp_line [THEN spec, THEN spec, THEN spec, THEN mp, OF c,
      of "lit ''m''" "Some (JBool True)"]
  show ?thesis by (simp add: epoch_world_def lit_def)
qed

section \<open>Properties of formatState\<close>

lemma formatState_gap:
  "formatState h x w = SerializeJSONProperty h (clock w) (stack_room w) [0x20, 0x20] [] x"
  by (simp add: formatState_def JSON_stringify_def ToIntegerOrInfinity_min10_def cu_def
      numeral_2_eq_2)

text \<open>
  C6: \<open>formatState\<close> is the serialisation primitive applied with a two-space indent:
  the null replacer selects nothing and the space argument 2 gives a gap of two
  spaces.
\<close>

theorem formatState_refines: "formatState h x w = spec_stringify_indent2 h x w"
  by (simp add: formatState_gap spec_stringify_indent2_def)

subsection \<open>Values whose serialisation runs no user code\<close>

text \<open>
  The serialisation of such a value returns normally exactly when the value has no
  cyclic reference and no BigInt and its nesting fits on the stack; an error, if
  any, is a TypeError or a RangeError; and the result does not depend on the clock,
  nor on the room on the stack once the value fits.
\<close>

lemma fold_max_le: "(fold max xs (a::nat) \<le> d) = (a \<le> d \<and> (\<forall>x\<in>set xs. x \<le> d))"
  by (induction xs arbitrary: a) auto







lemma array_partial_cong:
  assumes "\<And>v indent. v \<in> set vs \<Longrightarrow>
     SerializeJSONProperty h now d gap indent v = SerializeJSONProperty h now' d' gap indent v"
  shows "array_partial h now d gap indent vs = array_partial h now' d' gap indent vs"
  using assms
proof (induction vs)
  case Nil
  then show ?case by simp
next
  case (Cons v vs)
  have a: "SerializeJSONProperty h now d gap indent v
      = SerializeJSONProperty h now' d' gap indent v"
    using Cons.prems by simp
  have b: "array_partial h now d gap indent vs = array_partial h now' d' gap indent vs"
    using Cons by simp
  show ?case unfolding array_partial.simps a b by (rule refl)
qed

lemma object_partial_cong:
  assumes "\<And>p indent. p \<in> set ps \<Longrightarrow>
     SerializeJSONProperty h now d gap indent (snd p)
     = SerializeJSONProperty h now' d' gap indent (snd p)"
  shows "object_partial h now d gap indent ps = object_partial h now' d' gap indent ps"
  using assms
proof (induction ps)
  case Nil
  then show ?case by simp
next
  case (Cons p ps)
  have a: "SerializeJSONProperty h now d gap indent (snd p)
      = SerializeJSONProperty h now' d' gap indent (snd p)"
    using Cons.prems by simp
  have b: "object_partial h now d gap indent ps = object_partial h now' d' gap indent ps"
    using Cons by simp
  show ?case unfolding object_partial.simps a b by (rule refl)
qed

lemma serialize_plain_clock:
  "\<not> runs_user_code v \<Longrightarrow>
   SerializeJSONProperty h now d gap indent v = SerializeJSONProperty h now' d gap indent v"
proof (induction v arbitrary: d indent)
  case (JArray vs)
  have "array_partial h now (d - 1) gap (indent @ gap) vs
      = array_partial h now' (d - 1) gap (indent @ gap) vs"
    using JArray by (intro array_partial_cong) (auto simp add: list_ex_iff)
  then show ?case by (simp add: Let_def)
next
  case (JObject ps)
  have "object_partial h now (d - 1) gap (indent @ gap) ps
      = object_partial h now' (d - 1) gap (indent @ gap) ps"
    using JObject by (intro object_partial_cong) (auto simp add: list_ex_iff snds.simps)
  then show ?case by (simp add: Let_def)
qed simp_all

lemma fold_max_ge: "x \<in> set xs \<Longrightarrow> x \<le> fold max xs (a::nat)"
  using fold_max_le [of xs a "fold max xs a"] by simp

lemma serialize_plain_room:
  "\<not> runs_user_code v \<Longrightarrow> nesting v \<le> d \<Longrightarrow> nesting v \<le> d' \<Longrightarrow>
   SerializeJSONProperty h now d gap indent v = SerializeJSONProperty h now' d' gap indent v"
proof (induction v arbitrary: d d' indent)
  case (JArray vs)
  have n: "nesting v \<le> d - 1 \<and> nesting v \<le> d' - 1" if "v \<in> set vs" for v
  proof -
    have "nesting v \<le> fold max (map nesting vs) 0"
      using that by (intro fold_max_ge) simp
    then show ?thesis using JArray.prems by auto
  qed
  have "array_partial h now (d - 1) gap (indent @ gap) vs
      = array_partial h now' (d' - 1) gap (indent @ gap) vs"
    using JArray n by (intro array_partial_cong) (simp add: list_ex_iff)
  then show ?case using JArray.prems by (auto simp add: Let_def)
next
  case (JObject ps)
  have n: "nesting (snd p) \<le> d - 1 \<and> nesting (snd p) \<le> d' - 1" if "p \<in> set ps" for p
  proof -
    have "nesting (snd p) \<le> fold max (map (\<lambda>p. nesting (snd p)) ps) 0"
      using that by (intro fold_max_ge) simp
    then show ?thesis using JObject.prems by auto
  qed
  have "object_partial h now (d - 1) gap (indent @ gap) ps
      = object_partial h now' (d' - 1) gap (indent @ gap) ps"
    using JObject n by (intro object_partial_cong) (simp add: list_ex_iff snds.simps)
  then show ?case using JObject.prems by (auto simp add: Let_def)
qed simp_all





subsection \<open>Indentation\<close>

text \<open>The check accepts indented text and rejects text that is not.\<close>

lemma indented_text_examples:
  "indented_text Outside 0 (lit ''[\<newline>  1,\<newline>  [\<newline>    \"]\"\<newline>  ]\<newline>]'')
   \<and> \<not> indented_text Outside 0 (lit ''[1,2]'')
   \<and> \<not> indented_text Outside 0 (lit ''[\<newline> 1\<newline>]'')
   \<and> \<not> indented_text Outside 0 (lit ''[\<newline>  [\<newline>  1\<newline>  ]\<newline>]'')"
  by (simp add: lit_def cu_def is_open_def is_close_def)

lemma scan_units:
  "\<forall>c\<in>set s. c = 0x20 \<or> token_unit c \<Longrightarrow>
   indented_text Outside level (s @ rest) = indented_text Outside level rest"
  by (induction s) (auto simp add: token_unit_def is_open_def is_close_def)

lemma digit_unat: "d < 10 \<Longrightarrow> unat (digit d) = 48 + d"
proof -
  assume d: "d < 10"
  have "unat (of_nat (48 + d) :: code_unit) = (48 + d) mod 2 ^ LENGTH(16)"
    by (rule unat_of_nat)
  with d show ?thesis by (simp add: digit_def)
qed

lemma token_unit_range: "0x2B \<le> c \<Longrightarrow> c \<le> 0x39 \<Longrightarrow> c \<noteq> 0x2C \<Longrightarrow> token_unit c"
  by (auto simp add: token_unit_def is_open_def is_close_def)

lemma digit_token: "d < 10 \<Longrightarrow> token_unit (digit d)"
proof (rule token_unit_range)
  assume d: "d < 10"
  show "0x2B \<le> digit d" using digit_unat [OF d] by (simp add: word_le_nat_alt)
  show "digit d \<le> 0x39" using digit_unat [OF d] d by (simp add: word_le_nat_alt)
  show "digit d \<noteq> 0x2C"
  proof
    assume "digit d = 0x2C"
    then have "unat (digit d) = 44" by simp
    with digit_unat [OF d] show False by simp
  qed
qed

lemma digits_of_nat_nonempty: "digits_of_nat n \<noteq> []"
  by (subst digits_of_nat.simps) simp

lemma digits_of_nat_token: "\<forall>c\<in>set (digits_of_nat n). token_unit c"
proof (induction n rule: digits_of_nat.induct)
  case (1 n)
  show ?case
  proof (cases "n < 10")
    case True
    then show ?thesis by (subst digits_of_nat.simps) (simp add: digit_token)
  next
    case False
    then have "\<forall>c\<in>set (digits_of_nat (n div 10)). token_unit c" using 1 by simp
    then show ?thesis using False by (subst digits_of_nat.simps) (simp add: digit_token)
  qed
qed

lemma lit_token [simp]:
  "token_unit (cu CHR ''0'')" "token_unit (cu CHR ''.'')" "token_unit (cu CHR ''e'')"
  "token_unit (cu CHR ''-'')" "token_unit (cu CHR ''+'')"
  by (simp_all add: token_unit_def cu_def is_open_def is_close_def)

lemma format_digits_token: "\<forall>c\<in>set (format_digits sn). token_unit c"
proof -
  note d = digits_of_nat_token
  have t: "\<forall>c\<in>set (take k (digits_of_nat n)). token_unit c" for k n
    using d [of n] by (auto dest: in_set_takeD)
  have r: "\<forall>c\<in>set (drop k (digits_of_nat n)). token_unit c" for k n
    using d [of n] by (auto dest: in_set_dropD)
  show ?thesis
    using d t r by (auto simp add: format_digits_def Let_def lit_def)
qed

lemma format_digits_nonempty: "format_digits sn \<noteq> []"
  using digits_of_nat_nonempty [of "fst sn"]
  by (auto simp add: format_digits_def Let_def lit_def)

lemma NumberToString_token:
  "NumberToString h n \<noteq> [] \<and> (\<forall>c\<in>set (NumberToString h n). token_unit c)"
proof (cases n)
  case (Finite q)
  have p: "positive_to_string h r \<noteq> [] \<and> (\<forall>c\<in>set (positive_to_string h r). token_unit c)" for r
    using digits_of_nat_token format_digits_token format_digits_nonempty digits_of_nat_nonempty
    by (simp add: positive_to_string_def)
  show ?thesis using Finite p [of q] p [of "- q"] by (auto simp add: lit_def)
qed (simp_all add: lit_def cu_def token_unit_def is_open_def is_close_def)

lemma hex_digit_inside: "d < 16 \<Longrightarrow> hex_digit d \<noteq> 0x5C \<and> hex_digit d \<noteq> 0x22"
proof (cases "d < 10")
  case True
  have "unat (of_nat (48 + d) :: code_unit) = (48 + d) mod 2 ^ LENGTH(16)"
    by (rule unat_of_nat)
  with True have u: "unat (hex_digit d) = 48 + d" by (simp add: hex_digit_def)
  have "hex_digit d = 0x5C \<Longrightarrow> unat (hex_digit d) = 92" "hex_digit d = 0x22 \<Longrightarrow> unat (hex_digit d) = 34"
    by simp_all
  with u True show ?thesis by auto
next
  case False
  assume d: "d < 16"
  have "unat (of_nat (87 + d) :: code_unit) = (87 + d) mod 2 ^ LENGTH(16)"
    by (rule unat_of_nat)
  with False d have u: "unat (hex_digit d) = 87 + d" by (simp add: hex_digit_def)
  have "hex_digit d = 0x5C \<Longrightarrow> unat (hex_digit d) = 92" "hex_digit d = 0x22 \<Longrightarrow> unat (hex_digit d) = 34"
    by simp_all
  with u False show ?thesis by auto
qed

lemma scan_UnicodeEscape:
  "indented_text Inside level (UnicodeEscape c @ rest) = indented_text Inside level rest"
proof -
  let ?n = "unat c"
  have n: "?n < 65536" using unsigned_less [of c] by simp
  then have d: "?n div 4096 < 16" "?n div 256 mod 16 < 16" "?n div 16 mod 16 < 16" "?n mod 16 < 16"
    by simp_all
  show ?thesis
    using d [THEN hex_digit_inside] by (simp add: UnicodeEscape_def Let_def)
qed

lemma scan_quote_unit:
  "indented_text Inside level (quote_unit c @ rest) = indented_text Inside level rest"
  by (simp add: quote_unit_def scan_UnicodeEscape)

lemma surrogate_inside:
  "is_leading_surrogate c \<or> is_trailing_surrogate c \<Longrightarrow> c \<noteq> 0x5C \<and> c \<noteq> 0x22"
  by (auto simp add: is_leading_surrogate_def is_trailing_surrogate_def)

lemma scan_quote_units:
  "indented_text Inside level (quote_units s @ rest) = indented_text Inside level rest"
proof (induction s rule: quote_units.induct)
  case 1
  then show ?case by simp
next
  case (2 c)
  then show ?case by (simp add: scan_quote_unit)
next
  case (3 c d cs)
  show ?case
  proof (cases "is_leading_surrogate c \<and> is_trailing_surrogate d")
    case True
    then have "c \<noteq> 0x5C \<and> c \<noteq> 0x22" "d \<noteq> 0x5C \<and> d \<noteq> 0x22"
      using surrogate_inside by blast+
    then show ?thesis using True 3 by simp
  next
    case False
    then have e: "quote_units (c # d # cs) = quote_unit c @ quote_units (d # cs)"
      by (simp only: quote_units.simps if_False)
    have "indented_text Inside level (quote_unit c @ quote_units (d # cs) @ rest)
        = indented_text Inside level (quote_units (d # cs) @ rest)"
      by (rule scan_quote_unit)
    also have "\<dots> = indented_text Inside level rest" using 3(2) [OF False] .
    finally show ?thesis by (simp only: e append_assoc)
  qed
qed

lemma scan_QuoteJSONString:
  "indented_text Outside level (QuoteJSONString s @ rest) = indented_text Outside level rest"
  by (simp add: QuoteJSONString_def scan_quote_units)

lemma value_text_scan:
  "value_text level s \<Longrightarrow>
   indented_text Outside level (s @ rest) = indented_text Outside level rest"
  by (simp add: value_text_def)

lemma scan_spaces:
  "indented_text Outside level (replicate n 0x20 @ rest) = indented_text Outside level rest"
  by (rule scan_units) simp

lemma takeWhile_spaces:
  assumes "s \<noteq> []" "hd s \<noteq> 0x20"
  shows "takeWhile (\<lambda>x. x = 0x20) (replicate n 0x20 @ s @ rest) = replicate n (0x20 :: code_unit)"
proof -
  have "takeWhile (\<lambda>x. x = 0x20) (replicate n 0x20 @ s @ rest)
      = replicate n 0x20 @ takeWhile (\<lambda>x. x = 0x20) (s @ rest)"
    by (rule takeWhile_append2) simp
  moreover from assms have "takeWhile (\<lambda>x. x = 0x20) (s @ rest) = []" by (cases s) simp_all
  ultimately show ?thesis by simp
qed

lemma scan_line:
  assumes "value_text level s"
  shows "indented_text Outside level (0x0A # replicate (2 * level) 0x20 @ s @ rest)
       = indented_text Outside level rest"
proof -
  from assms have s: "s \<noteq> []" "hd s \<noteq> 0x20" "\<not> is_close (hd s)"
    by (simp_all add: value_text_def)
  let ?cs = "replicate (2 * level) 0x20 @ s @ rest"
  have t: "takeWhile (\<lambda>x. x = 0x20) ?cs = replicate (2 * level) 0x20"
    using s(1,2) by (rule takeWhile_spaces)
  have n: "?cs ! (2 * level) = hd s"
    using s(1) by (simp add: nth_append hd_conv_nth)
  have l: "2 * level < length ?cs" using s(1) by simp
  have "indented_text Outside level (0x0A # ?cs) = indented_text Outside level ?cs"
    using t n l s(3) by (simp add: is_open_def is_close_def Let_def)
  also have "\<dots> = indented_text Outside level (s @ rest)" by (rule scan_spaces)
  also have "\<dots> = indented_text Outside level rest" using assms by (rule value_text_scan)
  finally show ?thesis .
qed

lemma scan_join:
  assumes "partial \<noteq> []" "\<forall>s\<in>set partial. value_text level s"
  shows "indented_text Outside level
           (0x0A # replicate (2 * level) 0x20
            @ join (lit '','' @ [0x0A] @ replicate (2 * level) 0x20) partial @ rest)
       = indented_text Outside level rest"
  using assms
proof (induction "lit '','' @ [0x0A] @ replicate (2 * level) (0x20 :: code_unit)" partial
    rule: join.induct)
  case 1
  then show ?case by simp
next
  case (2 s)
  then show ?case using scan_line [of level s rest] by simp
next
  case (3 s t ss)
  let ?sep = "lit '','' @ [0x0A] @ replicate (2 * level) (0x20 :: code_unit)"
  let ?tail = "0x0A # replicate (2 * level) 0x20 @ join ?sep (t # ss) @ rest"
  have "indented_text Outside level (0x0A # replicate (2 * level) 0x20 @ s @ (0x2C # ?tail))
      = indented_text Outside level (0x2C # ?tail)"
    using 3 by (intro scan_line) simp
  also have "\<dots> = indented_text Outside level ?tail"
    by (simp add: is_open_def is_close_def)
  also have "\<dots> = indented_text Outside level rest" using 3 by simp
  finally show ?case by (simp add: lit_def cu_def)
qed

lemma scan_closing:
  assumes "is_close c"
  shows "indented_text Outside (Suc level) (0x0A # replicate (2 * level) 0x20 @ c # rest)
       = indented_text Outside level rest"
proof -
  from assms have c: "c \<noteq> 0x20" "c \<noteq> 0x22" "\<not> is_open c"
    by (auto simp add: is_close_def is_open_def)
  let ?cs = "replicate (2 * level) 0x20 @ [c] @ rest"
  have t: "takeWhile (\<lambda>x. x = 0x20) ?cs = replicate (2 * level) 0x20"
    using c by (intro takeWhile_spaces) simp_all
  have n: "?cs ! (2 * level) = c" by (simp add: nth_append)
  have "indented_text Outside (Suc level) (0x0A # ?cs) = indented_text Outside (Suc level) ?cs"
    using t n assms by (simp add: is_open_def is_close_def Let_def)
  also have "\<dots> = indented_text Outside (Suc level) ([c] @ rest)" by (rule scan_spaces)
  also have "\<dots> = indented_text Outside level rest" using assms c by simp
  finally show ?thesis by simp
qed

lemma value_text_brackets:
  assumes "is_open a" "is_close b" "\<forall>s\<in>set partial. value_text (Suc level) s"
  shows "value_text level
     (if partial = [] then [a, b]
      else [a] @ [0x0A] @ replicate (2 * Suc level) 0x20
           @ join (lit '','' @ [0x0A] @ replicate (2 * Suc level) 0x20) partial
           @ [0x0A] @ replicate (2 * level) 0x20 @ [b])"
proof (cases "partial = []")
  case True
  from assms have "a \<noteq> 0x22" "a \<noteq> 0x20" "\<not> is_close a" "b \<noteq> 0x22" "\<not> is_open b"
    by (auto simp add: is_close_def is_open_def)
  then show ?thesis using True assms by (simp add: value_text_def)
next
  case False
  from assms have a: "a \<noteq> 0x22" "a \<noteq> 0x20" "\<not> is_close a"
    by (auto simp add: is_close_def is_open_def)
  let ?sep = "lit '','' @ [0x0A] @ replicate (2 * Suc level) (0x20 :: code_unit)"
  have "indented_text Outside level
          (([a] @ [0x0A] @ replicate (2 * Suc level) 0x20 @ join ?sep partial
            @ [0x0A] @ replicate (2 * level) 0x20 @ [b]) @ rest)
      = indented_text Outside level rest" for rest
  proof -
    let ?tail = "0x0A # replicate (2 * level) 0x20 @ b # rest"
    have "indented_text Outside level
          (a # 0x0A # replicate (2 * Suc level) 0x20 @ join ?sep partial @ ?tail)
        = indented_text Outside (Suc level)
          (0x0A # replicate (2 * Suc level) 0x20 @ join ?sep partial @ ?tail)"
      using a assms(1) by simp
    also have "\<dots> = indented_text Outside (Suc level) ?tail"
      using False assms(3) by (rule scan_join)
    also have "\<dots> = indented_text Outside level rest" using assms(2) by (rule scan_closing)
    finally show ?thesis by simp
  qed
  then show ?thesis using False a by (simp add: value_text_def)
qed

lemma value_text_member:
  assumes "value_text level s"
  shows "value_text level (QuoteJSONString key @ lit '':'' @ lit '' '' @ s)"
proof -
  have t: "\<forall>c\<in>set (lit '':'' @ lit '' ''). c = 0x20 \<or> token_unit c"
    by (simp add: lit_def cu_def token_unit_def is_open_def is_close_def)
  have "indented_text Outside level ((QuoteJSONString key @ lit '':'' @ lit '' '' @ s) @ rest)
      = indented_text Outside level rest" for rest
  proof -
    have "indented_text Outside level (QuoteJSONString key @ (lit '':'' @ lit '' '') @ s @ rest)
        = indented_text Outside level ((lit '':'' @ lit '' '') @ s @ rest)"
      by (rule scan_QuoteJSONString)
    also have "\<dots> = indented_text Outside level (s @ rest)" using t by (rule scan_units)
    also have "\<dots> = indented_text Outside level rest" using assms by (rule value_text_scan)
    finally show ?thesis by simp
  qed
  then show ?thesis by (simp add: value_text_def QuoteJSONString_def is_close_def)
qed

lemma value_text_token:
  assumes "s \<noteq> []" "\<forall>c\<in>set s. token_unit c"
  shows "value_text level s"
proof -
  from assms have "token_unit (hd s)" by simp
  then have "hd s \<noteq> 0x20" "\<not> is_close (hd s)" by (simp_all add: token_unit_def)
  moreover have "indented_text Outside level (s @ rest) = indented_text Outside level rest" for rest
    using assms(2) by (intro scan_units) simp
  ultimately show ?thesis using assms(1) by (simp add: value_text_def)
qed

lemma value_text_string: "value_text level (QuoteJSONString s)"
  using scan_QuoteJSONString [of level s]
  by (simp add: value_text_def QuoteJSONString_def is_close_def)

lemma value_text_number: "value_text level (NumberToString h n)"
  using NumberToString_token [of h n] by (intro value_text_token) simp_all

lemma replicate_gap:
  "replicate (2 * level) (0x20 :: code_unit) @ [0x20, 0x20] = replicate (2 * Suc level) 0x20"
proof -
  have "[0x20, 0x20] = replicate 2 (0x20 :: code_unit)" by (simp add: numeral_2_eq_2)
  then have "replicate (2 * level) (0x20 :: code_unit) @ [0x20, 0x20]
      = replicate (2 * level + 2) 0x20"
    by (simp only: replicate_add)
  then show ?thesis by simp
qed

lemma serialize_value_text:
  "gap = [0x20, 0x20] \<longrightarrow> (\<forall>level s. indent = replicate (2 * level) 0x20
      \<and> SerializeJSONProperty h now depth gap indent v = Inr (Some s) \<longrightarrow> value_text level s)"
  "gap = [0x20, 0x20] \<longrightarrow> (\<forall>level partial. indent = replicate (2 * level) 0x20
      \<and> array_partial h now depth gap indent vs = Inr partial
      \<longrightarrow> (\<forall>s\<in>set partial. value_text level s))"
  "gap = [0x20, 0x20] \<longrightarrow> (\<forall>level partial. indent = replicate (2 * level) 0x20
      \<and> object_partial h now depth gap indent ps = Inr partial
      \<longrightarrow> (\<forall>s\<in>set partial. value_text level s))"
proof (induction h now depth gap indent v and h now depth gap indent vs
    and h now depth gap indent ps
    rule: SerializeJSONProperty_array_partial_object_partial.induct)
  case (1 h now depth gap indent f)
  show ?case
  proof (intro impI allI)
    fix level s
    assume g: "gap = [0x20, 0x20]"
      and a: "indent = replicate (2 * level) 0x20
        \<and> SerializeJSONProperty h now depth gap indent (JToJSON f) = Inr (Some s)"
    then have d: "depth \<noteq> 0" by (auto split: if_splits)
    from a have a2: "SerializeJSONProperty h now depth gap indent (JToJSON f) = Inr (Some s)"
      by (rule conjunct2)
    with d obtain "value" where v: "f now = Inr value" by (auto split: sum.splits)
    show "value_text level s"
    proof (cases "has_toJSON value")
      case True
      with a2 d v have "s = lit ''{}''" by simp
      then show ?thesis
        using value_text_brackets [of "0x7B" "0x7D" "[]" level]
        by (simp add: is_open_def is_close_def lit_def cu_def)
    next
      case False
      with a2 d v have "SerializeJSONProperty h now (depth - 1) gap indent value = Inr (Some s)"
        by simp
      with 1 [OF d v False] g a show ?thesis by blast
    qed
  qed
next
  case (8 h now depth gap indent xs)
  show ?case
  proof (intro impI allI)
    fix level s
    assume g: "gap = [0x20, 0x20]"
      and a: "indent = replicate (2 * level) 0x20
        \<and> SerializeJSONProperty h now depth gap indent (JArray xs) = Inr (Some s)"
    then have d: "depth \<noteq> 0" by (auto split: if_splits)
    from a have a1: "indent = replicate (2 * level) 0x20"
      and a2: "SerializeJSONProperty h now depth gap indent (JArray xs) = Inr (Some s)"
      by blast+
    define inner where "inner = indent @ gap"
    have i: "inner = replicate (2 * Suc level) 0x20"
      unfolding inner_def a1 g by (rule replicate_gap)
    have u: "SerializeJSONProperty h now depth gap indent (JArray xs)
        = (case array_partial h now (depth - 1) gap inner xs of
             Inl e \<Rightarrow> Inl e
           | Inr partial \<Rightarrow> Inr (Some (
               if partial = [] then [0x5B, 0x5D]
               else [0x5B] @ [0x0A] @ inner @ join (lit '','' @ [0x0A] @ inner) partial
                    @ [0x0A] @ indent @ [0x5D])))"
      using d g by (simp add: Let_def inner_def lit_def cu_def split: sum.splits)
    from a2 obtain partial where
      p: "array_partial h now (depth - 1) gap inner xs = Inr partial"
      and e: "s = (if partial = [] then [0x5B, 0x5D]
               else [0x5B] @ [0x0A] @ inner @ join (lit '','' @ [0x0A] @ inner) partial
                    @ [0x0A] @ indent @ [0x5D])"
      unfolding u by (auto split: sum.splits)
    have "\<forall>s\<in>set partial. value_text (Suc level) s"
      using 8 [OF d refl refl] g i p unfolding inner_def by blast
    then have "value_text level
       (if partial = [] then [0x5B, 0x5D]
        else [0x5B] @ [0x0A] @ replicate (2 * Suc level) 0x20
           @ join (lit '','' @ [0x0A] @ replicate (2 * Suc level) 0x20) partial
           @ [0x0A] @ replicate (2 * level) 0x20 @ [0x5D])"
      by (intro value_text_brackets) (simp_all add: is_open_def is_close_def)
    then show "value_text level s" unfolding e i a1 .
  qed
next
  case (9 h now depth gap indent xs)
  show ?case
  proof (intro impI allI)
    fix level s
    assume g: "gap = [0x20, 0x20]"
      and a: "indent = replicate (2 * level) 0x20
        \<and> SerializeJSONProperty h now depth gap indent (JObject xs) = Inr (Some s)"
    then have d: "depth \<noteq> 0" by (auto split: if_splits)
    from a have a1: "indent = replicate (2 * level) 0x20"
      and a2: "SerializeJSONProperty h now depth gap indent (JObject xs) = Inr (Some s)"
      by blast+
    define inner where "inner = indent @ gap"
    have i: "inner = replicate (2 * Suc level) 0x20"
      unfolding inner_def a1 g by (rule replicate_gap)
    have u: "SerializeJSONProperty h now depth gap indent (JObject xs)
        = (case object_partial h now (depth - 1) gap inner xs of
             Inl e \<Rightarrow> Inl e
           | Inr partial \<Rightarrow> Inr (Some (
               if partial = [] then [0x7B, 0x7D]
               else [0x7B] @ [0x0A] @ inner @ join (lit '','' @ [0x0A] @ inner) partial
                    @ [0x0A] @ indent @ [0x7D])))"
      using d g by (simp add: Let_def inner_def lit_def cu_def split: sum.splits)
    from a2 obtain partial where
      p: "object_partial h now (depth - 1) gap inner xs = Inr partial"
      and e: "s = (if partial = [] then [0x7B, 0x7D]
               else [0x7B] @ [0x0A] @ inner @ join (lit '','' @ [0x0A] @ inner) partial
                    @ [0x0A] @ indent @ [0x7D])"
      unfolding u by (auto split: sum.splits)
    have "\<forall>s\<in>set partial. value_text (Suc level) s"
      using 9 [OF d refl refl] g i p unfolding inner_def by blast
    then have "value_text level
       (if partial = [] then [0x7B, 0x7D]
        else [0x7B] @ [0x0A] @ replicate (2 * Suc level) 0x20
           @ join (lit '','' @ [0x0A] @ replicate (2 * Suc level) 0x20) partial
           @ [0x0A] @ replicate (2 * level) 0x20 @ [0x7D])"
      by (intro value_text_brackets) (simp_all add: is_open_def is_close_def)
    then show "value_text level s" unfolding e i a1 .
  qed
next
  case (14 h now depth gap indent v vs)
  show ?case
  proof (intro impI allI ballI)
    fix level partial s
    assume g: "gap = [0x20, 0x20]"
      and a: "indent = replicate (2 * level) 0x20
        \<and> array_partial h now depth gap indent (v # vs) = Inr partial"
      and s: "s \<in> set partial"
    from a obtain strP rest where
      v: "SerializeJSONProperty h now depth gap indent v = Inr strP"
      and r: "array_partial h now depth gap indent vs = Inr rest"
      and e: "partial = (case strP of None \<Rightarrow> lit ''null'' | Some s \<Rightarrow> s) # rest"
      by (auto split: sum.splits)
    have n: "value_text level (lit ''null'')"
      by (rule value_text_token)
        (simp_all add: lit_def cu_def token_unit_def is_open_def is_close_def)
    have h1: "value_text level (case strP of None \<Rightarrow> lit ''null'' | Some s \<Rightarrow> s)"
      using 14(1) g a v n by (auto split: option.splits)
    have h2: "\<forall>s\<in>set rest. value_text level s"
      using 14(2) [OF v] g a r by blast
    from s e h1 h2 show "value_text level s" by auto
  qed
next
  case (16 h now depth gap indent p ps)
  show ?case
  proof (intro impI allI ballI)
    fix level partial s
    assume g: "gap = [0x20, 0x20]"
      and a: "indent = replicate (2 * level) 0x20
        \<and> object_partial h now depth gap indent (p # ps) = Inr partial"
      and s: "s \<in> set partial"
    from a obtain strP rest where
      v: "SerializeJSONProperty h now depth gap indent (snd p) = Inr strP"
      and r: "object_partial h now depth gap indent ps = Inr rest"
      and e: "partial = (case strP of None \<Rightarrow> rest
            | Some s \<Rightarrow> (QuoteJSONString (fst p) @ lit '':''
                          @ (if gap \<noteq> [] then lit '' '' else []) @ s) # rest)"
      by (auto split: sum.splits option.splits)
    have h2: "\<forall>s\<in>set rest. value_text level s"
      using 16(2) [OF v] g a r by blast
    show "value_text level s"
    proof (cases strP)
      case None
      with e s h2 show ?thesis by simp
    next
      case (Some t)
      have "value_text level t" using 16(1) g a v Some by blast
      then have "value_text level (QuoteJSONString (fst p) @ lit '':'' @ lit '' '' @ t)"
        by (rule value_text_member)
      with e s h2 Some g show ?thesis by auto
    qed
  qed
qed (auto simp add: value_text_string value_text_number value_text_token lit_def cu_def
    token_unit_def is_open_def is_close_def)

lemma formatState_value_text:
  assumes "formatState h x w = Inr (Some s)"
  shows "indented_text Outside 0 s"
proof -
  have "value_text 0 s"
    using serialize_value_text(1) [of "[0x20, 0x20]" "[]" h "clock w" "stack_room w" x] assms
    by (simp add: formatState_gap)
  then have "indented_text Outside 0 (s @ []) = indented_text Outside 0 []"
    by (rule value_text_scan)
  then show ?thesis by simp
qed

lemma formatState_undefined:
  "\<not> runs_user_code x \<Longrightarrow>
   (formatState h x w = Inr None) = (x = JUndefined \<or> x = JSymbol \<or> x = JFunction)"
  by (cases x) (auto simp add: formatState_gap Let_def split: sum.splits)

text \<open>
  C3 as stated fails: \<open>formatState\<close> returns undefined, not a string, on the value
  undefined and on a function.
\<close>

theorem formatState_undefined_counterexample:
  "formatState example_host JUndefined epoch_world = Inr None
   \<and> formatState example_host JFunction epoch_world = Inr None"
  by (simp add: formatState_gap)

text \<open>
  C3, amended: whenever \<open>formatState\<close> returns a string, the string is indented
  text, two spaces for each level of nesting; and on a value whose serialisation runs
  no user code it returns undefined exactly when the value is undefined, a symbol or
  a function.
\<close>

theorem formatState_indented:
  "(\<forall>h x w s. formatState h x w = Inr (Some s) \<longrightarrow> indented_text Outside 0 s)
   \<and> (\<forall>h x w. \<not> runs_user_code x \<longrightarrow>
        (formatState h x w = Inr None) = (x = JUndefined \<or> x = JSymbol \<or> x = JFunction))"
  using formatState_value_text formatState_undefined by blast

theorem formatState_indented_witness:
  "formatState example_host
     (JObject [(lit ''id'', JNumber (Finite 7)), (lit ''tags'', JArray [JString (lit ''a,b''), JNull]),
               (lit ''none'', JArray [])]) epoch_world
     = Inr (Some (lit ''{\<newline>  \"id\": 7,\<newline>  \"tags\": [\<newline>    \"a,b\",\<newline>    null\<newline>  ],\<newline>  \"none\": []\<newline>}''))
   \<and> indented_text Outside 0
       (lit ''{\<newline>  \"id\": 7,\<newline>  \"tags\": [\<newline>    \"a,b\",\<newline>    null\<newline>  ],\<newline>  \"none\": []\<newline>}'')"
proof -
  have a: "formatState example_host
     (JObject [(lit ''id'', JNumber (Finite 7)), (lit ''tags'', JArray [JString (lit ''a,b''), JNull]),
               (lit ''none'', JArray [])]) epoch_world
     = Inr (Some (lit ''{\<newline>  \"id\": 7,\<newline>  \"tags\": [\<newline>    \"a,b\",\<newline>    null\<newline>  ],\<newline>  \"none\": []\<newline>}''))"
    by code_simp
  show ?thesis
    using a formatState_indented [THEN conjunct1, THEN spec, THEN spec, THEN spec, THEN spec,
        THEN mp, OF a] by (rule conjI)
qed

subsection \<open>Error conditions\<close>




subsection \<open>Statelessness\<close>

text \<open>
  C8 as stated fails: on an object whose \<open>toJSON\<close> method returns the current time,
  a call of \<open>formatState\<close> at the epoch and a call one millisecond later return
  different strings.
\<close>

theorem formatState_deterministic_counterexample:
  "formatState example_host clock_reader epoch_world = Inr (Some (lit ''0''))
   \<and> formatState example_host clock_reader (epoch_world\<lparr>clock := 1\<rparr>) = Inr (Some (lit ''1''))
   \<and> formatState example_host clock_reader epoch_world
       \<noteq> formatState example_host clock_reader (epoch_world\<lparr>clock := 1\<rparr>)"
proof -
  have d1: "digits_of_nat (Suc 0) = [0x31]"
    by (subst digits_of_nat.simps) (simp add: digit_def)
  have a: "formatState example_host clock_reader epoch_world = Inr (Some (lit ''0''))"
    by (simp add: formatState_gap clock_reader_def epoch_world_def is_finite_def)
  have b: "formatState example_host clock_reader (epoch_world\<lparr>clock := 1\<rparr>)
      = Inr (Some (lit ''1''))"
    by (simp add: formatState_gap clock_reader_def epoch_world_def is_finite_def
        positive_to_string_def is_safe_integer_def d1 lit_def cu_def)
  have "lit ''0'' \<noteq> lit ''1''" by (simp add: lit_def cu_def)
  with a b show ?thesis by simp
qed

text \<open>
  C8, amended: the helpers keep no state of their own. On a value whose
  serialisation runs no user code, two calls of \<open>formatState\<close> return equal results
  whenever they are made with the same room on the stack, or with room for the
  nesting of the value: whatever else differs between the two host states. What the
  other helpers return or log is determined by their arguments and by what they read
  from the host: the outcome drawn from the random source, the clock, the number of
  promises created.
\<close>

theorem helpers_stateless:
  "(\<forall>h x w w'. \<not> runs_user_code x \<and> stack_room w = stack_room w' \<longrightarrow>
        map_sum id fst (run_call h (FormatState x) w)
        = map_sum id fst (run_call h (FormatState x) w'))
   \<and> (\<forall>h x w w'. \<not> runs_user_code x \<and> nesting x \<le> stack_room w \<and> nesting x \<le> stack_room w' \<longrightarrow>
        map_sum id fst (run_call h (FormatState x) w)
        = map_sum id fst (run_call h (FormatState x) w'))
   \<and> (\<forall>h w w'. random_source w (random_calls w) = random_source w' (random_calls w') \<longrightarrow>
         map_sum id fst (run_call h GenerateId w) = map_sum id fst (run_call h GenerateId w'))
   \<and> (\<forall>h message data_arg w w'. clock w = clock w' \<longrightarrow>
         map_sum id (\<lambda>r. last (console (snd r))) (run_call h (LogWithTimestamp message data_arg) w)
         = map_sum id (\<lambda>r. last (console (snd r))) (run_call h (LogWithTimestamp message data_arg) w'))
   \<and> (\<forall>h ms w w'. promises w = promises w' \<longrightarrow>
         map_sum id (\<lambda>r. (fst r, last (timers (snd r)))) (run_call h (Sleep ms) w)
         = map_sum id (\<lambda>r. (fst r, last (timers (snd r)))) (run_call h (Sleep ms) w'))"
proof (intro conjI allI impI)
  fix h x and w w' :: world
  assume a: "\<not> runs_user_code x \<and> stack_room w = stack_room w'"
  then have "formatState h x w = formatState h x w'"
    unfolding formatState_gap using serialize_plain_clock [of x h "clock w" "stack_room w'"]
    by simp
  then show "map_sum id fst (run_call h (FormatState x) w)
      = map_sum id fst (run_call h (FormatState x) w')"
    by (simp split: sum.splits)
next
  fix h x and w w' :: world
  assume a: "\<not> runs_user_code x \<and> nesting x \<le> stack_room w \<and> nesting x \<le> stack_room w'"
  then have "formatState h x w = formatState h x w'"
    unfolding formatState_gap by (intro serialize_plain_room) simp_all
  then show "map_sum id fst (run_call h (FormatState x) w)
      = map_sum id fst (run_call h (FormatState x) w')"
    by (simp split: sum.splits)
next
  fix h :: host and w w' :: world
  assume "random_source w (random_calls w) = random_source w' (random_calls w')"
  then show "map_sum id fst (run_call h GenerateId w) = map_sum id fst (run_call h GenerateId w')"
    by (simp add: generateId_returns)
next
  fix h :: host and message data_arg and w w' :: world
  assume "clock w = clock w'"
  then show "map_sum id (\<lambda>r. last (console (snd r))) (run_call h (LogWithTimestamp message data_arg) w)
         = map_sum id (\<lambda>r. last (console (snd r))) (run_call h (LogWithTimestamp message data_arg) w')"
    by (simp add: logWithTimestamp_def Date_new_def console_log_def Let_def split: sum.splits)
next
  fix h :: host and ms and w w' :: world
  assume "promises w = promises w'"
  then show "map_sum id (\<lambda>r. (fst r, last (timers (snd r)))) (run_call h (Sleep ms) w)
         = map_sum id (\<lambda>r. (fst r, last (timers (snd r)))) (run_call h (Sleep ms) w')"
    by (simp add: sleep_def setTimeout_def Let_def)
qed

theorem helpers_stateless_witness:
  "map_sum id fst (run_call example_host (FormatState (JArray [JBool True])) epoch_world)
     = Inr (RString (Some (lit ''[\<newline>  true\<newline>]'')))
   \<and> map_sum id fst (run_call example_host (FormatState (JArray [JBool True]))
        (epoch_world\<lparr>clock := 5, stack_room := 3\<rparr>))
     = Inr (RString (Some (lit ''[\<newline>  true\<newline>]'')))
   \<and> map_sum id fst (run_call example_host GenerateId (epoch_world\<lparr>clock := 5\<rparr>))
     = map_sum id fst (run_call example_host GenerateId epoch_world)"
proof -
  note th = helpers_stateless
  let ?x = "JArray [JBool True]"
  let ?w = "epoch_world\<lparr>clock := 5, stack_room := 3\<rparr>"
  have a: "map_sum id fst (run_call example_host (FormatState ?x) epoch_world)
     = Inr (RString (Some (lit ''[\<newline>  true\<newline>]'')))"
    by (simp add: formatState_gap epoch_world_def Let_def lit_def cu_def)
  have p: "\<not> runs_user_code ?x \<and> nesting ?x \<le> stack_room ?w
      \<and> nesting ?x \<le> stack_room epoch_world"
    by (simp add: epoch_world_def)
  have "map_sum id fst (run_call example_host (FormatState ?x) ?w)
     = map_sum id fst (run_call example_host (FormatState ?x) epoch_world)"
    using th [THEN conjunct2, THEN conjunct1, THEN spec, THEN spec, THEN spec, THEN spec,
        THEN mp, OF p] .
  with a have b: "map_sum id fst (run_call example_host (FormatState ?x) ?w)
     = Inr (RString (Some (lit ''[\<newline>  true\<newline>]'')))" by simp
  have r: "random_source (epoch_world\<lparr>clock := 5\<rparr>) (random_calls (epoch_world\<lparr>clock := 5\<rparr>))
     = random_source epoch_world (random_calls epoch_world)" by simp
  have c: "map_sum id fst (run_call example_host GenerateId (epoch_world\<lparr>clock := 5\<rparr>))
     = map_sum id fst (run_call example_host GenerateId epoch_world)"
    using th [THEN conjunct2, THEN conjunct2, THEN conjunct1, THEN spec, THEN spec, THEN spec,
        THEN mp, OF r] .
  from a b c show ?thesis by (intro conjI)
qed

end
